theory Spec2Isabelle
  imports Main "HOL-Library.AList" "HOL-Library.Word"
begin

section \<open>Python values and exceptions\<close>

text \<open>
  The documents handled by the service are JSON objects as Python sees them after parsing:
  \<open>None\<close>, booleans, integers, floats, strings, lists and string-keyed dictionaries.
  A validated document may in addition hold \<open>datetime\<close> objects.  A float is its
  64-bit pattern and a \<open>datetime\<close> object is named by its \<open>isoformat()\<close> text;
  nothing below computes with either.
  A dictionary is an association list in insertion order; a lookup reads the first
  entry of a key, and a Python \<open>dict\<close> never holds a key twice.
\<close>

datatype pyfloat = Float64 "64 word"
datatype pydatetime = Datetime string

datatype pyval =
    PNone
  | PBool bool
  | PInt int
  | PFloat pyfloat
  | PStr string
  | PList "pyval list"
  | PDict "(string \<times> pyval) list"
  | PDatetime pydatetime

type_synonym doc = "(string \<times> pyval) list"

datatype error =
    ValueError
  | ValidationError
  | KeyError
  | AttributeError
  | TypeError
  | RuntimeError
  | NameError
  | OverflowError
  | HTTPException nat


text \<open>
  Primitives of the Python runtime and of the validation library that lie outside the
  model are left unspecified: the truth value of a float, the float of an integer, and
  every conversion of the validation library that is not written out in
  \<open>validate_type\<close> below.
\<close>

definition float_nonzero :: "pyfloat \<Rightarrow> bool" where
  "float_nonzero f = undefined f"

definition float_of_int :: "int \<Rightarrow> pyfloat" where
  "float_of_int n = undefined n"

text \<open>Python truthiness (\<open>bool(v)\<close>), as used by \<open>if is_required\<close>.\<close>

fun truthy :: "pyval \<Rightarrow> bool" where
  "truthy PNone = False"
| "truthy (PBool b) = b"
| "truthy (PInt n) = (n \<noteq> 0)"
| "truthy (PFloat f) = float_nonzero f"
| "truthy (PStr s) = (s \<noteq> [])"
| "truthy (PList xs) = (xs \<noteq> [])"
| "truthy (PDict kvs) = (kvs \<noteq> [])"
| "truthy (PDatetime d) = True"

text \<open>\<open>d.get(k, dflt)\<close> and \<open>k in d\<close> on a dictionary.\<close>

definition dict_get :: "doc \<Rightarrow> string \<Rightarrow> pyval \<Rightarrow> pyval" where
  "dict_get d k dflt = (case map_of d k of None \<Rightarrow> dflt | Some v \<Rightarrow> v)"

definition has_key :: "doc \<Rightarrow> string \<Rightarrow> bool" where
  "has_key d k = (map_of d k \<noteq> None)"

section \<open>SchemaDefinition and its validator\<close>

text \<open>The attribute \<open>fields\<close> of the class is the record field \<open>field_defs\<close>.\<close>

record SchemaDefinition =
  name :: string
  description :: "string option"
  field_defs :: "(string \<times> doc) list"

definition valid_types :: "string list" where
  "valid_types = [''string'', ''number'', ''integer'', ''boolean'', ''array'', ''object'',
                  ''date'', ''datetime'']"

text \<open>
  \<open>validate_field_definitions\<close>: the loop over \<open>fields.items()\<close>; the first offending
  field raises \<open>ValueError\<close>, otherwise the fields are returned unchanged.
\<close>

fun validate_field_definitions :: "(string \<times> doc) list \<Rightarrow> error + unit" where
  "validate_field_definitions [] = Inr ()"
| "validate_field_definitions ((field_name, field_def) # rest) =
     (case map_of field_def ''type'' of
        None \<Rightarrow> Inl ValueError
      | Some field_type \<Rightarrow>
          if field_type \<notin> PStr ` set valid_types then Inl ValueError
          else if field_type = PStr ''array'' \<and> \<not> has_key field_def ''items'' then Inl ValueError
          else if field_type = PStr ''object'' \<and> \<not> has_key field_def ''properties''
            then Inl ValueError
          else validate_field_definitions rest)"


section \<open>Runtime types of the dynamic model\<close>

text \<open>
  The values of \<open>type_mapping\<close>.  The module imports the class with
  \<open>from datetime import datetime\<close>, so \<open>datetime.date\<close> is the method \<open>date\<close> of that
  class (\<open>TDateMethod\<close>), not the type of calendar dates.  The bare \<open>List\<close> is
  \<open>List[Any]\<close>.
\<close>

datatype pytype =
    TStr
  | TFloat
  | TInt
  | TBool
  | TDateMethod
  | TDatetime
  | TList pytype
  | TDict
  | TAny

definition type_mapping :: "(string \<times> pytype) list" where
  "type_mapping =
     [(''string'', TStr), (''number'', TFloat), (''integer'', TInt), (''boolean'', TBool),
      (''date'', TDateMethod), (''datetime'', TDatetime), (''array'', TList TAny),
      (''object'', TDict)]"

text \<open>
  \<open>type_mapping.get(field_type, Any)\<close>: the argument is whatever JSON value the schema
  holds; a list or a dictionary is unhashable, so the lookup raises \<open>TypeError\<close>.
\<close>

fun get_pydantic_type :: "pyval \<Rightarrow> error + pytype" where
  "get_pydantic_type (PStr s) =
     Inr (case map_of type_mapping s of None \<Rightarrow> TAny | Some t \<Rightarrow> t)"
| "get_pydantic_type (PList xs) = Inl TypeError"
| "get_pydantic_type (PDict kvs) = Inl TypeError"
| "get_pydantic_type v = Inr TAny"

text \<open>
  One entry of \<open>field_definitions\<close>: the annotation (\<open>Optional[T]\<close> or \<open>T\<close>) and the
  default handed to \<open>Field\<close>, which is \<open>...\<close> (\<open>Ellipsis\<close>) for a required field
  without a default.
\<close>

datatype default_spec = Ellipsis | Default pyval

record field_info =
  f_type :: pytype
  f_optional :: bool
  f_default :: default_spec

type_synonym model = "(string \<times> field_info) list"

definition primitive_types :: "string list" where
  "primitive_types = [''string'', ''number'', ''integer'', ''boolean'', ''date'', ''datetime'']"

text \<open>
  The body of the loop in \<open>create_model_from_schema\<close> for one field: \<open>None\<close> when no
  branch of the \<open>if\<close>/\<open>elif\<close> chain applies and nothing is stored for the field.
\<close>

definition field_definition :: "doc \<Rightarrow> error + field_info option" where
  "field_definition field_def =
     (case map_of field_def ''type'' of
        None \<Rightarrow> Inl KeyError
      | Some field_type \<Rightarrow>
          let is_required = dict_get field_def ''required'' (PBool False);
              dflt = (case map_of field_def ''default'' of
                        Some d \<Rightarrow> Default d
                      | None \<Rightarrow> if truthy is_required then Ellipsis else Default PNone)
          in
          if field_type \<in> PStr ` set primitive_types then
            (case get_pydantic_type field_type of
               Inl e \<Rightarrow> Inl e
             | Inr t \<Rightarrow> Inr (Some \<lparr>f_type = t, f_optional = \<not> truthy is_required,
                                    f_default = dflt\<rparr>))
          else if field_type = PStr ''array'' then
            (case map_of field_def ''items'' of
               None \<Rightarrow> Inl KeyError
             | Some (PDict items) \<Rightarrow>
                 (case get_pydantic_type (dict_get items ''type'' (PStr ''string'')) of
                    Inl e \<Rightarrow> Inl e
                  | Inr t \<Rightarrow> Inr (Some \<lparr>f_type = TList t, f_optional = \<not> truthy is_required,
                                         f_default = dflt\<rparr>))
             | Some other \<Rightarrow> Inl AttributeError)
          else if field_type = PStr ''object'' then
            Inr (Some \<lparr>f_type = TDict, f_optional = \<not> truthy is_required, f_default = dflt\<rparr>)
          else Inr None)"

text \<open>The loop itself, filling the dictionary \<open>field_definitions\<close> in field order.\<close>

fun field_definitions :: "(string \<times> doc) list \<Rightarrow> model \<Rightarrow> error + model" where
  "field_definitions [] acc = Inr acc"
| "field_definitions ((field_name, field_def) # rest) acc =
     (case field_definition field_def of
        Inl e \<Rightarrow> Inl e
      | Inr None \<Rightarrow> field_definitions rest acc
      | Inr (Some fi) \<Rightarrow> field_definitions rest (AList.update field_name fi acc))"

text \<open>
  The library's \<open>create_model\<close> (pydantic 1.x) builds the class from the entries of
  \<open>field_definitions\<close> in their order:
  \<^item> an entry whose name starts with an underscore is no field of the model
    (\<open>is_valid_field\<close>): the library warns and ignores it, whatever its annotation;
  \<^item> an entry whose name is that of a public attribute of \<open>BaseModel\<close> or of its
    metaclass raises \<open>NameError\<close> (the name shadows an attribute of the base class);
  \<^item> for every other entry the library looks up a validator for the annotation and
    raises \<open>RuntimeError\<close> for an annotation that is not a type it knows: the method
    \<open>datetime.date\<close> is the one such annotation \<open>type_mapping\<close> can produce.
  The first entry that raises decides.  Before any of this the class body is read for
  its configuration: an entry named \<open>Config\<close> raises \<open>TypeError\<close> there.

  The entries go into the namespace of the new class as they are.  A name that starts
  with two underscores (\<open>__init__\<close>, \<open>__annotations__\<close>, \<open>__root__\<close>, the keyword
  parameters \<open>__base__\<close>, \<open>__config__\<close> of \<open>create_model\<close> itself) and the name of a
  private method of \<open>BaseModel\<close> therefore reach Python's class machinery or replace
  a method the model needs.  What happens then differs from name to name and is not
  written out: with such a name among the entries \<open>reserved_outcome\<close> either raises or
  yields some model, whose field names are valid and distinct.
\<close>

definition underscore_name :: "string \<Rightarrow> bool" where
  "underscore_name n = (case n of [] \<Rightarrow> False | c # cs \<Rightarrow> c = CHR ''_'')"

definition is_valid_field :: "string \<Rightarrow> bool" where
  "is_valid_field n = (\<not> underscore_name n \<or> n = ''__root__'')"

definition shadowing_names :: "string list" where
  "shadowing_names =
     [''construct'', ''copy'', ''dict'', ''from_orm'', ''json'', ''mro'', ''parse_file'',
      ''parse_obj'', ''parse_raw'', ''register'', ''schema'', ''schema_json'',
      ''update_forward_refs'', ''validate'']"

definition private_names :: "string list" where
  "private_names =
     [''_abc_caches_clear'', ''_abc_impl'', ''_abc_registry_clear'', ''_calculate_keys'',
      ''_copy_and_set_values'', ''_decompose_class'', ''_dump_registry'',
      ''_enforce_dict_if_root'', ''_get_value'', ''_init_private_attributes'', ''_iter'']"

definition reserved_name :: "string \<Rightarrow> bool" where
  "reserved_name n = (take 2 n = ''__'' \<or> n \<in> set private_names)"

definition reserved_outcome :: "model \<Rightarrow> error + model" where
  "reserved_outcome defs =
     (case undefined defs of
        Inl e \<Rightarrow> Inl e
      | Inr m \<Rightarrow> Inr (AList.clearjunk (filter (\<lambda>(n, fi). is_valid_field n) m)))"

fun has_validator :: "pytype \<Rightarrow> bool" where
  "has_validator TDateMethod = False"
| "has_validator (TList t) = has_validator t"
| "has_validator t = True"

fun build_fields :: "model \<Rightarrow> error + model" where
  "build_fields [] = Inr []"
| "build_fields ((n, fi) # rest) =
     (if underscore_name n then build_fields rest
      else if n \<in> set shadowing_names then Inl NameError
      else if \<not> has_validator (f_type fi) then Inl RuntimeError
      else (case build_fields rest of Inl e \<Rightarrow> Inl e | Inr m \<Rightarrow> Inr ((n, fi) # m)))"

definition create_model :: "model \<Rightarrow> error + model" where
  "create_model defs =
     (if list_ex (\<lambda>(n, fi). reserved_name n) defs then reserved_outcome defs
      else if ''Config'' \<in> set (map fst defs) then Inl TypeError
      else build_fields defs)"

definition create_model_from_schema :: "SchemaDefinition \<Rightarrow> error + model" where
  "create_model_from_schema schema_def =
     (case field_definitions (field_defs schema_def) [] of
        Inl e \<Rightarrow> Inl e
      | Inr defs \<Rightarrow> create_model defs)"

section \<open>Validation of one value against a runtime type\<close>

text \<open>
  The validation library (pydantic 1.x, in its default, lax mode) validates a value by
  the validator of the annotation.  Written out below are: a value that already is of
  the runtime type is returned as it is; \<open>int(v)\<close> for a boolean and for a string of
  decimal digits; the values the validators reject whatever their content (a list or a
  dictionary where a scalar is expected, anything but a list where a list is expected,
  a string holding a letter where an integer is expected); an integer in the range of a
  double where a float is expected.  Every other conversion is
  \<open>other_conversion\<close>, which either raises or returns a value of the runtime type;
  the library turns a \<open>ValueError\<close> or \<open>TypeError\<close> raised by a validator into a
  validation error and lets any other exception through.
\<close>

definition other_conversion :: "pytype \<Rightarrow> pyval \<Rightarrow> error + pyval" where
  "other_conversion t v = undefined t v"

fun has_kind :: "pytype \<Rightarrow> pyval \<Rightarrow> bool" where
  "has_kind TStr v = (case v of PStr s \<Rightarrow> True | other \<Rightarrow> False)"
| "has_kind TInt v = (case v of PInt n \<Rightarrow> True | other \<Rightarrow> False)"
| "has_kind TFloat v = (case v of PFloat f \<Rightarrow> True | other \<Rightarrow> False)"
| "has_kind TBool v = (case v of PBool b \<Rightarrow> True | other \<Rightarrow> False)"
| "has_kind TDatetime v = (case v of PDatetime d \<Rightarrow> True | other \<Rightarrow> False)"
| "has_kind TDict v = (case v of PDict kvs \<Rightarrow> True | other \<Rightarrow> False)"
| "has_kind TDateMethod v = False"
| "has_kind (TList t) v = False"
| "has_kind TAny v = False"

definition lax :: "pytype \<Rightarrow> pyval \<Rightarrow> error + pyval" where
  "lax t v =
     (case other_conversion t v of
        Inl e \<Rightarrow> if e = ValueError \<or> e = TypeError \<or> e = ValidationError
                 then Inl ValidationError else Inl e
      | Inr w \<Rightarrow> if has_kind t w then Inr w else Inl ValidationError)"

text \<open>\<open>int(s)\<close> on a string of ASCII decimal digits.\<close>

definition digit_of :: "char \<Rightarrow> int option" where
  "digit_of c =
     (let k = (of_char c :: nat) in if 48 \<le> k \<and> k \<le> 57 then Some (int k - 48) else None)"

fun digits_val :: "int \<Rightarrow> string \<Rightarrow> int option" where
  "digits_val acc [] = Some acc"
| "digits_val acc (c # cs) =
     (case digit_of c of None \<Rightarrow> None | Some d \<Rightarrow> digits_val (10 * acc + d) cs)"

definition int_of_digits :: "string \<Rightarrow> int option" where
  "int_of_digits s = (if s = [] then None else digits_val 0 s)"

definition is_ascii_letter :: "char \<Rightarrow> bool" where
  "is_ascii_letter c =
     (let k = (of_char c :: nat) in (65 \<le> k \<and> k \<le> 90) \<or> (97 \<le> k \<and> k \<le> 122))"

text \<open>
  Collecting the outcomes of several validations, as the library does for the items of a
  list and for the fields of a model: every item is validated; an exception that is not
  a validation error leaves at once; otherwise one rejected item rejects the whole.
\<close>

fun gather :: "(error + 'a) list \<Rightarrow> error + 'a list" where
  "gather [] = Inr []"
| "gather (r # rs) =
     (case r of
        Inl e \<Rightarrow>
          if e = ValidationError
          then (case gather rs of Inl e' \<Rightarrow> Inl e' | Inr vs \<Rightarrow> Inl ValidationError)
          else Inl e
      | Inr v \<Rightarrow> (case gather rs of Inl e' \<Rightarrow> Inl e' | Inr vs \<Rightarrow> Inr (v # vs)))"

text \<open>
  \<open>None\<close> never reaches a validator: an item of a list is rejected when it is \<open>None\<close>
  unless the item type is \<open>Any\<close>; for a field of the model see \<open>validate_field\<close>.
\<close>

fun validate_type :: "pytype \<Rightarrow> pyval \<Rightarrow> error + pyval" where
  "validate_type TAny v = Inr v"
| "validate_type TDateMethod v = Inl RuntimeError"
| "validate_type (TList t) v =
     (case v of
        PList xs \<Rightarrow>
          (case gather (map (validate_type t) xs) of
             Inl e \<Rightarrow> Inl e
           | Inr ws \<Rightarrow> Inr (PList ws))
      | other \<Rightarrow> Inl ValidationError)"
| "validate_type TStr v =
     (case v of
        PStr s \<Rightarrow> Inr v
      | PNone \<Rightarrow> Inl ValidationError
      | PList xs \<Rightarrow> Inl ValidationError
      | PDict kvs \<Rightarrow> Inl ValidationError
      | PDatetime d \<Rightarrow> Inl ValidationError
      | other \<Rightarrow> lax TStr v)"
| "validate_type TInt v =
     (case v of
        PInt n \<Rightarrow> Inr v
      | PBool b \<Rightarrow> Inr (PInt (if b then 1 else 0))
      | PStr s \<Rightarrow>
          (case int_of_digits s of
             Some n \<Rightarrow> if length s \<le> 4300 then Inr (PInt n) else lax TInt v
           | None \<Rightarrow> if list_ex is_ascii_letter s then Inl ValidationError else lax TInt v)
      | PNone \<Rightarrow> Inl ValidationError
      | PList xs \<Rightarrow> Inl ValidationError
      | PDict kvs \<Rightarrow> Inl ValidationError
      | PDatetime d \<Rightarrow> Inl ValidationError
      | other \<Rightarrow> lax TInt v)"
| "validate_type TFloat v =
     (case v of
        PFloat f \<Rightarrow> Inr v
      | PInt n \<Rightarrow> if \<bar>n\<bar> < 2 ^ 1023 then Inr (PFloat (float_of_int n)) else lax TFloat v
      | PNone \<Rightarrow> Inl ValidationError
      | PList xs \<Rightarrow> Inl ValidationError
      | PDict kvs \<Rightarrow> Inl ValidationError
      | PDatetime d \<Rightarrow> Inl ValidationError
      | other \<Rightarrow> lax TFloat v)"
| "validate_type TBool v =
     (case v of
        PBool b \<Rightarrow> Inr v
      | PNone \<Rightarrow> Inl ValidationError
      | PList xs \<Rightarrow> Inl ValidationError
      | PDict kvs \<Rightarrow> Inl ValidationError
      | PDatetime d \<Rightarrow> Inl ValidationError
      | other \<Rightarrow> lax TBool v)"
| "validate_type TDatetime v =
     (case v of
        PDatetime d \<Rightarrow> Inr v
      | PNone \<Rightarrow> Inl ValidationError
      | other \<Rightarrow> lax TDatetime v)"
| "validate_type TDict v =
     (case v of
        PDict kvs \<Rightarrow> Inr v
      | PNone \<Rightarrow> Inl ValidationError
      | other \<Rightarrow> lax TDict v)"

section \<open>The dynamic model: instantiation and \<open>dict()\<close>\<close>

text \<open>
  A field is required when its default is \<open>...\<close>.  It admits \<open>None\<close> when its
  annotation is \<open>Optional\<close> or when its default is \<open>None\<close>.
\<close>

definition allow_none :: "field_info \<Rightarrow> bool" where
  "allow_none fi = (f_optional fi \<or> f_default fi = Default PNone)"

definition validate_field :: "field_info \<Rightarrow> pyval \<Rightarrow> error + pyval" where
  "validate_field fi v =
     (if v = PNone then (if allow_none fi then Inr PNone else Inl ValidationError)
      else validate_type (f_type fi) v)"

text \<open>
  The value of one field of the model from the input: a missing required field is an
  error, a missing field with a default takes the default without validating it, a
  field that is present is validated.
\<close>

definition field_value :: "field_info \<Rightarrow> pyval option \<Rightarrow> error + pyval" where
  "field_value fi input =
     (case input of
        None \<Rightarrow> (case f_default fi of Ellipsis \<Rightarrow> Inl ValidationError | Default d \<Rightarrow> Inr d)
      | Some v \<Rightarrow> validate_field fi v)"

text \<open>
  The library's \<open>validate_model\<close> followed by \<open>dict()\<close>: every field of the model, in
  the order of the model; keys of the input that are no field of the model are ignored.
\<close>

definition validate_model :: "model \<Rightarrow> doc \<Rightarrow> error + doc" where
  "validate_model m data =
     (case gather (map (\<lambda>(n, fi). field_value fi (map_of data n)) m) of
        Inl e \<Rightarrow> Inl e
      | Inr vs \<Rightarrow> Inr (zip (map fst m) vs))"

text \<open>
  \<open>model_class(**data).dict()\<close>.  The initialiser of the model is
  \<open>__init__(__pydantic_self__, **data)\<close>, so a document with the key
  \<open>__pydantic_self__\<close> gives that parameter two values, and the call raises
  \<open>TypeError\<close> before anything is validated.
\<close>

definition instantiate :: "model \<Rightarrow> doc \<Rightarrow> error + doc" where
  "instantiate model_class data =
     (if has_key data ''__pydantic_self__'' then Inl TypeError
      else validate_model model_class data)"

definition validate_data :: "SchemaDefinition \<Rightarrow> doc \<Rightarrow> error + doc" where
  "validate_data schema_def data =
     (case create_model_from_schema schema_def of
        Inl e \<Rightarrow> Inl e
      | Inr model_class \<Rightarrow>
          (case instantiate model_class data of
             Inl e \<Rightarrow> if e = ValidationError then Inl ValueError else Inl e
           | Inr validated_data \<Rightarrow> Inr validated_data))"

section \<open>Example data\<close>

text \<open>The schema of the test suite: two required fields and an optional one.\<close>

definition user_schema :: SchemaDefinition where
  "user_schema = \<lparr>name = ''user'', description = None, field_defs =
     [(''name'', [(''type'', PStr ''string''), (''required'', PBool True)]),
      (''age'', [(''type'', PStr ''integer''), (''required'', PBool True)]),
      (''email'', [(''type'', PStr ''string''), (''required'', PBool False)])]\<rparr>"

section \<open>Values of a runtime type\<close>

text \<open>
  \<open>conforms t v\<close>: the value \<open>v\<close> already is of the runtime type \<open>t\<close> (a string
  for \<open>str\<close>, an integer that is no boolean for \<open>int\<close>, a list of conforming items for
  \<open>List[t]\<close>, anything for \<open>Any\<close>).  \<open>None\<close> conforms to \<open>Any\<close> only.
\<close>

fun conforms :: "pytype \<Rightarrow> pyval \<Rightarrow> bool" where
  "conforms TAny v = True"
| "conforms TDateMethod v = False"
| "conforms (TList t) v = (case v of PList xs \<Rightarrow> list_all (conforms t) xs | other \<Rightarrow> False)"
| "conforms TStr v = has_kind TStr v"
| "conforms TInt v = has_kind TInt v"
| "conforms TFloat v = has_kind TFloat v"
| "conforms TBool v = has_kind TBool v"
| "conforms TDatetime v = has_kind TDatetime v"
| "conforms TDict v = has_kind TDict v"


text \<open>A schema with one optional field and no default.\<close>

definition nickname_schema :: SchemaDefinition where
  "nickname_schema = \<lparr>name = ''profile'', description = None, field_defs =
     [(''nickname'', [(''type'', PStr ''string'')])]\<rparr>"

section \<open>Predicates used in the statements about validation\<close>

text \<open>
  \<open>supplies fi input\<close>: the input supplies the model field correctly: the field is
  present with a value of its runtime type (or with \<open>None\<close> where the field admits
  \<open>None\<close>), or it is absent and the field has a default.
\<close>

definition supplies :: "field_info \<Rightarrow> pyval option \<Rightarrow> bool" where
  "supplies fi input =
     (case input of
        None \<Rightarrow> f_default fi \<noteq> Ellipsis
      | Some v \<Rightarrow> if v = PNone then allow_none fi else conforms (f_type fi) v)"

text \<open>Every default of the model is returned unchanged by the validation of its field.\<close>

definition defaults_validated :: "model \<Rightarrow> bool" where
  "defaults_validated m =
     list_all (\<lambda>(n, fi). case f_default fi of
                             Ellipsis \<Rightarrow> True
                           | Default d \<Rightarrow> validate_field fi d = Inr d) m"

text \<open>
  The schemas from which a model is built, in terms of the schema alone.  \<open>items_ok\<close>:
  the loop of \<open>create_model_from_schema\<close> does not raise on the field (for an array,
  \<open>items\<close> is an object and the type it names can be looked up).  \<open>date_free\<close>: the
  annotation of the field does not involve the type name \<open>date\<close>.  \<open>buildable\<close>: no
  declared name is reserved or \<open>Config\<close>, the loop raises on no field, and every field
  whose name does not start with an underscore has a name that shadows nothing and an
  annotation without \<open>date\<close>.
\<close>

definition items_ok :: "doc \<Rightarrow> bool" where
  "items_ok fd =
     (if map_of fd ''type'' = Some (PStr ''array'')
      then (case map_of fd ''items'' of
              Some (PDict items) \<Rightarrow>
                (case dict_get items ''type'' (PStr ''string'') of
                   PList xs \<Rightarrow> False
                 | PDict kvs \<Rightarrow> False
                 | other \<Rightarrow> True)
            | other \<Rightarrow> False)
      else True)"

definition date_free :: "doc \<Rightarrow> bool" where
  "date_free fd =
     (map_of fd ''type'' \<noteq> Some (PStr ''date'') \<and>
      (map_of fd ''type'' = Some (PStr ''array'') \<longrightarrow>
         (case map_of fd ''items'' of
            Some (PDict items) \<Rightarrow> dict_get items ''type'' (PStr ''string'') \<noteq> PStr ''date''
          | other \<Rightarrow> True)))"

definition buildable :: "SchemaDefinition \<Rightarrow> bool" where
  "buildable S =
     list_all (\<lambda>(n, fd). \<not> reserved_name n \<and> n \<noteq> ''Config'' \<and> items_ok fd \<and>
                 (underscore_name n \<or> (n \<notin> set shadowing_names \<and> date_free fd)))
       (field_defs S)"

text \<open>
  \<open>only_validation_errors m D\<close>: no field of the model raises, on the document, an
  exception other than a validation error.
\<close>

definition only_validation_errors :: "model \<Rightarrow> doc \<Rightarrow> bool" where
  "only_validation_errors m D =
     list_all (\<lambda>(n, fi). case field_value fi (map_of D n) of
                             Inl e \<Rightarrow> e = ValidationError
                           | Inr w \<Rightarrow> True) m"

text \<open>
  \<open>rejected t v\<close>: the value \<open>v\<close> is of a kind the validator of \<open>t\<close> rejects
  whatever its content.  \<open>None\<close> is left out: a field decides on it before any validator
  runs.
\<close>

fun rejected :: "pytype \<Rightarrow> pyval \<Rightarrow> bool" where
  "rejected TStr v =
     (case v of PList xs \<Rightarrow> True | PDict kvs \<Rightarrow> True | PDatetime d \<Rightarrow> True | other \<Rightarrow> False)"
| "rejected TInt v =
     (case v of PList xs \<Rightarrow> True | PDict kvs \<Rightarrow> True | PDatetime d \<Rightarrow> True
      | PStr s \<Rightarrow> list_ex is_ascii_letter s | other \<Rightarrow> False)"
| "rejected TFloat v =
     (case v of PList xs \<Rightarrow> True | PDict kvs \<Rightarrow> True | PDatetime d \<Rightarrow> True | other \<Rightarrow> False)"
| "rejected TBool v =
     (case v of PList xs \<Rightarrow> True | PDict kvs \<Rightarrow> True | PDatetime d \<Rightarrow> True | other \<Rightarrow> False)"
| "rejected (TList t) v = (case v of PList xs \<Rightarrow> False | PNone \<Rightarrow> False | other \<Rightarrow> True)"
| "rejected t v = False"

text \<open>
  More example data: the model built from \<open>user_schema\<close>; a schema whose array field
  gives \<open>items\<close> as a string; a schema whose integer field has a string default.
\<close>

definition user_model :: model where
  "user_model =
     [(''name'', \<lparr>f_type = TStr, f_optional = False, f_default = Ellipsis\<rparr>),
      (''age'', \<lparr>f_type = TInt, f_optional = False, f_default = Ellipsis\<rparr>),
      (''email'', \<lparr>f_type = TStr, f_optional = True, f_default = Default PNone\<rparr>)]"

definition tags_schema :: SchemaDefinition where
  "tags_schema = \<lparr>name = ''post'', description = None, field_defs =
     [(''tags'', [(''type'', PStr ''array''), (''items'', PStr ''string'')])]\<rparr>"

definition count_schema :: SchemaDefinition where
  "count_schema = \<lparr>name = ''stock'', description = None, field_defs =
     [(''count'', [(''type'', PStr ''integer''), (''default'', PStr ''many'')])]\<rparr>"

text \<open>
  A schema whose only field, required, has a name that starts with an underscore; the
  schema of the test suite with such a field added; a schema with a field of type
  \<open>date\<close> beside a required one.
\<close>

definition underscore_schema :: SchemaDefinition where
  "underscore_schema = \<lparr>name = ''record'', description = None, field_defs =
     [(''_id'', [(''type'', PStr ''string''), (''required'', PBool True)])]\<rparr>"

definition tracked_schema :: SchemaDefinition where
  "tracked_schema = \<lparr>name = ''tracked'', description = None, field_defs =
     [(''_rev'', [(''type'', PStr ''date''), (''required'', PBool True)]),
      (''name'', [(''type'', PStr ''string''), (''required'', PBool True)]),
      (''age'', [(''type'', PStr ''integer''), (''required'', PBool True)]),
      (''email'', [(''type'', PStr ''string''), (''required'', PBool False)])]\<rparr>"

definition event_schema :: SchemaDefinition where
  "event_schema = \<lparr>name = ''event'', description = None, field_defs =
     [(''title'', [(''type'', PStr ''string''), (''required'', PBool True)]),
      (''day'', [(''type'', PStr ''date'')])]\<rparr>"

section \<open>Search criteria\<close>

text \<open>
  \<open>apply_search_criteria\<close> turns a tree of criteria into filters on a query.  A query is
  modelled by the list of the conditions put on it, in the order of the calls of
  \<open>filter\<close>: a row is in its result when it meets all of them.  A comparison records
  the cast of the JSON field, the operator, the field path and the value.
\<close>

datatype sql_type = CastInteger | CastFloat | CastBoolean | CastString

datatype compare_op = Eq | Ne | Gt | Gte | Lt | Lte | Contains | Startswith | Endswith

datatype criterion =
    Compare sql_type compare_op pyval pyval
  | OrOf "criterion list"
  | SchemaIs int

type_synonym query = "criterion list"

definition query_filter :: "query \<Rightarrow> criterion \<Rightarrow> query" where
  "query_filter q c = q @ [c]"

text \<open>
  The operations of Python the function applies to the criteria, which are whatever JSON
  value the request holds: \<open>k in v\<close> (a key of a dictionary, an item of a list, a
  substring of a string; anything else is not iterable), \<open>v[k]\<close> with a string \<open>k\<close>
  (defined for a dictionary only), and the iteration \<open>for x in v\<close>.
\<close>

fun contains_str :: "string \<Rightarrow> string \<Rightarrow> bool" where
  "contains_str k [] = (k = [])"
| "contains_str k (c # cs) = (take (length k) (c # cs) = k \<or> contains_str k cs)"

fun py_in :: "string \<Rightarrow> pyval \<Rightarrow> error + bool" where
  "py_in k (PDict kvs) = Inr (has_key kvs k)"
| "py_in k (PList xs) = Inr (PStr k \<in> set xs)"
| "py_in k (PStr s) = Inr (contains_str k s)"
| "py_in k v = Inl TypeError"

fun py_getitem :: "pyval \<Rightarrow> string \<Rightarrow> error + pyval" where
  "py_getitem (PDict kvs) k = (case map_of kvs k of None \<Rightarrow> Inl KeyError | Some v \<Rightarrow> Inr v)"
| "py_getitem v k = Inl TypeError"

fun py_iter :: "pyval \<Rightarrow> error + pyval list" where
  "py_iter (PList xs) = Inr xs"
| "py_iter (PDict kvs) = Inr (map (\<lambda>(k, v). PStr k) kvs)"
| "py_iter (PStr s) = Inr (map (\<lambda>c. PStr [c]) s)"
| "py_iter v = Inl TypeError"

text \<open>
  The \<open>isinstance\<close> chain that chooses the cast: a boolean is an instance of \<open>int\<close>, so
  the test for \<open>int\<close> takes it and the branch for \<open>bool\<close> is never reached.
\<close>

fun is_int :: "pyval \<Rightarrow> bool" where
  "is_int (PInt n) = True"
| "is_int (PBool b) = True"
| "is_int v = False"

fun is_float :: "pyval \<Rightarrow> bool" where
  "is_float (PFloat f) = True"
| "is_float v = False"

fun is_bool :: "pyval \<Rightarrow> bool" where
  "is_bool (PBool b) = True"
| "is_bool v = False"

definition cast_for :: "pyval \<Rightarrow> sql_type" where
  "cast_for v =
     (if is_int v then CastInteger
      else if is_float v then CastFloat
      else if is_bool v then CastBoolean
      else CastString)"

definition operators :: "(string \<times> compare_op) list" where
  "operators =
     [(''eq'', Eq), (''ne'', Ne), (''gt'', Gt), (''gte'', Gte), (''lt'', Lt), (''lte'', Lte),
      (''contains'', Contains), (''startswith'', Startswith), (''endswith'', Endswith)]"

text \<open>
  The branch for a single condition.  An operator that is none of the nine falls through
  the \<open>if\<close>/\<open>elif\<close> chain to the final \<open>return query\<close>.
\<close>

definition single_condition :: "query \<Rightarrow> pyval \<Rightarrow> error + query" where
  "single_condition q criteria =
     (case py_getitem criteria ''field_path'' of
        Inl e \<Rightarrow> Inl e
      | Inr field_path \<Rightarrow>
     (case py_getitem criteria ''operator'' of
        Inl e \<Rightarrow> Inl e
      | Inr operator \<Rightarrow>
     (case py_getitem criteria ''value'' of
        Inl e \<Rightarrow> Inl e
      | Inr v \<Rightarrow>
     (case operator of
        PStr s \<Rightarrow>
          (case map_of operators s of
             Some opr \<Rightarrow> Inr (query_filter q (Compare (cast_for v) opr field_path v))
           | None \<Rightarrow> Inr q)
      | other \<Rightarrow> Inr q))))"

text \<open>\<open>all(k in criteria for k in ["field_path", "operator", "value"])\<close>, which stops at the
  first key that is missing.\<close>

definition has_all_keys :: "pyval \<Rightarrow> error + bool" where
  "has_all_keys criteria =
     (case py_in ''field_path'' criteria of
        Inl e \<Rightarrow> Inl e
      | Inr False \<Rightarrow> Inr False
      | Inr True \<Rightarrow>
          (case py_in ''operator'' criteria of
             Inl e \<Rightarrow> Inl e
           | Inr False \<Rightarrow> Inr False
           | Inr True \<Rightarrow> py_in ''value'' criteria))"

text \<open>
  The loop of the \<open>or\<close> branch.  Its body starts with \<open>db.query(...)\<close>, and no name
  \<open>db\<close> is bound in the function or in the module: the first iteration raises
  \<open>NameError\<close>.  With no item the loop does nothing and the list of conditions is empty.
\<close>

fun or_conditions :: "pyval list \<Rightarrow> error + criterion list" where
  "or_conditions [] = Inr []"
| "or_conditions (sub_criteria # rest) = Inl NameError"

text \<open>
  The function itself, with the loop of the \<open>and\<close> branch as \<open>apply_each\<close>.  The
  recursion descends into the items of a value; \<open>max_size\<close> bounds their sizes.
\<close>

definition max_size :: "pyval list \<Rightarrow> nat" where
  "max_size xs = fold max (map size xs) 0"

function apply_search_criteria :: "query \<Rightarrow> pyval \<Rightarrow> error + query"
  and apply_each :: "query \<Rightarrow> pyval list \<Rightarrow> error + query" where
  "apply_search_criteria q criteria =
     (case py_in ''and'' criteria of
        Inl e \<Rightarrow> Inl e
      | Inr True \<Rightarrow>
          (case py_getitem criteria ''and'' of
             Inl e \<Rightarrow> Inl e
           | Inr subs \<Rightarrow>
               (case py_iter subs of
                  Inl e \<Rightarrow> Inl e
                | Inr xs \<Rightarrow> apply_each q xs))
      | Inr False \<Rightarrow>
          (case py_in ''or'' criteria of
             Inl e \<Rightarrow> Inl e
           | Inr True \<Rightarrow>
               (case py_getitem criteria ''or'' of
                  Inl e \<Rightarrow> Inl e
                | Inr subs \<Rightarrow>
                    (case py_iter subs of
                       Inl e \<Rightarrow> Inl e
                     | Inr xs \<Rightarrow>
                         (case or_conditions xs of
                            Inl e \<Rightarrow> Inl e
                          | Inr conditions \<Rightarrow> Inr (query_filter q (OrOf conditions)))))
           | Inr False \<Rightarrow>
               (case has_all_keys criteria of
                  Inl e \<Rightarrow> Inl e
                | Inr True \<Rightarrow> single_condition q criteria
                | Inr False \<Rightarrow> Inr q)))"
| "apply_each q [] = Inr q"
| "apply_each q (sub_criteria # rest) =
     (case apply_search_criteria q sub_criteria of
        Inl e \<Rightarrow> Inl e
      | Inr q' \<Rightarrow> apply_each q' rest)"
  by pat_completeness auto

termination
proof (relation "measures
    [\<lambda>x. case x of Inl (q, c) \<Rightarrow> size c | Inr (q, xs) \<Rightarrow> max_size xs,
     \<lambda>x. case x of Inl (q, c) \<Rightarrow> 0 | Inr (q, xs) \<Rightarrow> Suc (length xs)]")
  have fold_max_ge: "m \<le> fold max ns m" for ns and m :: nat
    by (induction ns arbitrary: m) (auto intro: order_trans [OF max.cobounded2])
  have fold_max_mono: "fold max ns m \<le> fold max ns m'" if "m \<le> m'" for ns and m m' :: nat
    using that by (induction ns arbitrary: m m') (auto simp: max.coboundedI2 max.coboundedI1)
  have fold_max_bound: "fold max ns m \<le> b"
    if "\<And>n. n \<in> set ns \<Longrightarrow> n \<le> b" and "m \<le> b" for ns and m b :: nat
    using that by (induction ns arbitrary: m) auto
  have max_size_bound: "max_size xs \<le> b" if "\<And>x. x \<in> set xs \<Longrightarrow> size x \<le> b" for xs b
    unfolding max_size_def using that by (intro fold_max_bound) auto
  have head: "size x \<le> max_size (x # xs)" for x xs
    unfolding max_size_def by (auto intro: order_trans [OF _ fold_max_ge])
  have tail: "max_size xs \<le> max_size (x # xs)" for x xs
    unfolding max_size_def by (auto intro: fold_max_mono)
  have getitem: "size v < size c" if got: "py_getitem c k = Inr v" for c k v
  proof (cases c)
    case (PDict kvs)
    with got have "(k, v) \<in> set kvs"
      by (auto split: option.splits dest: map_of_SomeD)
    moreover have "size v < size_prod (\<lambda>x. 0) size (k, v)" by simp
    ultimately have "size v < size_list (size_prod (\<lambda>x. 0) size) kvs"
      by (rule size_list_estimation)
    then show ?thesis using PDict by simp
  qed (use got in auto)
  have iter: "max_size xs \<le> size v" if it: "py_iter v = Inr xs" for v xs
  proof (cases v)
    case (PList ys)
    with it have xs: "xs = ys" by simp
    have "max_size ys \<le> size_list size ys"
      by (rule max_size_bound) (auto intro: size_list_estimation')
    then show ?thesis using PList xs by simp
  next
    case (PDict kvs)
    have "max_size xs \<le> 0"
    proof (rule max_size_bound)
      fix x assume "x \<in> set xs"
      then show "size x \<le> 0" using it PDict by auto
    qed
    then show ?thesis by simp
  next
    case (PStr s)
    have "max_size xs \<le> 0"
    proof (rule max_size_bound)
      fix x assume "x \<in> set xs"
      then show "size x \<le> 0" using it PStr by auto
    qed
    then show ?thesis by simp
  qed (use it in auto)
  show "wf (measures
    [\<lambda>x. case x of Inl (q, c) \<Rightarrow> size c | Inr (q, xs) \<Rightarrow> max_size xs,
     \<lambda>x. case x of Inl (q, c) \<Rightarrow> 0 | Inr (q, xs) \<Rightarrow> Suc (length xs)])"
    by simp
  show "(Inr (q, xs), Inl (q, criteria)) \<in> measures
    [\<lambda>x. case x of Inl (q, c) \<Rightarrow> size c | Inr (q, xs) \<Rightarrow> max_size xs,
     \<lambda>x. case x of Inl (q, c) \<Rightarrow> 0 | Inr (q, xs) \<Rightarrow> Suc (length xs)]"
    if "py_getitem criteria ''and'' = Inr subs" and "py_iter subs = Inr xs"
    for q :: query and criteria subs xs
  proof -
    have "max_size xs < size criteria"
      using getitem [OF that(1)] iter [OF that(2)] by (rule le_less_trans [rotated])
    then show ?thesis by simp
  qed
  show "(Inl (q, sub_criteria), Inr (q, sub_criteria # rest)) \<in> measures
    [\<lambda>x. case x of Inl (q, c) \<Rightarrow> size c | Inr (q, xs) \<Rightarrow> max_size xs,
     \<lambda>x. case x of Inl (q, c) \<Rightarrow> 0 | Inr (q, xs) \<Rightarrow> Suc (length xs)]"
    for q :: query and sub_criteria rest
    using head [of sub_criteria rest] by auto
  show "(Inr (q', rest), Inr (q, sub_criteria # rest)) \<in> measures
    [\<lambda>x. case x of Inl (q, c) \<Rightarrow> size c | Inr (q, xs) \<Rightarrow> max_size xs,
     \<lambda>x. case x of Inl (q, c) \<Rightarrow> 0 | Inr (q, xs) \<Rightarrow> Suc (length xs)]"
    for q q' :: query and sub_criteria rest
    using tail [of rest sub_criteria] by auto
qed



section \<open>Stored schemas and records\<close>











section \<open>Creating a record\<close>






section \<open>Migrating the records of a schema\<close>
















section \<open>Collecting outcomes\<close>

lemma gather_Inl_Cons: "gather (Inl e # rs) \<noteq> Inr vs"
  by (simp split: sum.splits)

lemma gather_Inr_Cons:
  "gather (Inr v # rs) = Inr vs \<longleftrightarrow> (\<exists>ws. vs = v # ws \<and> gather rs = Inr ws)"
  by (cases "gather rs") auto

lemma gather_Inr_iff: "gather rs = Inr vs \<longleftrightarrow> rs = map Inr vs"
proof (induction rs arbitrary: vs)
  case Nil
  show ?case by auto
next
  case (Cons r rs)
  show ?case
  proof (cases r)
    case (Inl e)
    then show ?thesis using gather_Inl_Cons [of e rs vs] by auto
  next
    case (Inr v)
    then show ?thesis using Cons.IH by (auto simp: gather_Inr_Cons simp del: gather.simps)
  qed
qed

lemma gather_Inl_mem: "Inl e \<in> set rs \<Longrightarrow> \<exists>e'. gather rs = Inl e'"
  by (cases "gather rs") (auto simp: gather_Inr_iff)

lemma gather_map_Inr: "gather (map Inr vs) = Inr vs"
  by (simp add: gather_Inr_iff)

lemma gather_only_validation:
  "list_all (\<lambda>r. case r of Inl e \<Rightarrow> e = ValidationError | Inr v \<Rightarrow> True) rs \<Longrightarrow>
   list_ex isl rs \<Longrightarrow> gather rs = Inl ValidationError"
proof (induction rs)
  case Nil
  then show ?case by simp
next
  case (Cons r rs)
  show ?case
  proof (cases r)
    case (Inl e)
    with Cons.prems(1) have e: "e = ValidationError" by simp
    show ?thesis
    proof (cases "gather rs")
      case l: (Inl e')
      have "list_ex isl rs"
      proof (rule ccontr)
        assume "\<not> list_ex isl rs"
        then have "rs = map Inr (map projr rs)"
          by (induction rs) (auto simp: isl_def)
        then have "gather rs = Inr (map projr rs)"
          using gather_map_Inr by metis
        with l show False by simp
      qed
      then have "gather rs = Inl ValidationError" using Cons by simp
      then show ?thesis using Inl e by simp
    next
      case (Inr vs)
      then show ?thesis using Inl e by simp
    qed
  next
    case (Inr v)
    then show ?thesis using Cons by simp
  qed
qed

section \<open>Building the model from a schema\<close>

lemma field_definitions_other:
  "field_definitions rest acc = Inr m \<Longrightarrow> f \<notin> fst ` set rest \<Longrightarrow> map_of m f = map_of acc f"
proof (induction rest acc rule: field_definitions.induct)
  case (1 acc)
  then show ?case by simp
next
  case (2 field_name field_def rest acc)
  then show ?case
    by (auto split: sum.splits option.splits simp: update_conv')
qed

lemma field_definitions_Inl:
  "(f, fd) \<in> set fds \<Longrightarrow> field_definition fd = Inl e \<Longrightarrow> \<exists>e'. field_definitions fds acc = Inl e'"
proof (induction fds acc rule: field_definitions.induct)
  case (1 acc)
  then show ?case by simp
next
  case (2 field_name field_def rest acc)
  then show ?case
    by (auto split: sum.splits option.splits)
qed

lemma field_definitions_lookup:
  "field_definitions fds acc = Inr m \<Longrightarrow> distinct (map fst fds) \<Longrightarrow> (f, fd) \<in> set fds \<Longrightarrow>
   field_definition fd = Inr (Some fi) \<Longrightarrow> map_of m f = Some fi"
proof (induction fds acc rule: field_definitions.induct)
  case (1 acc)
  then show ?case by simp
next
  case (2 field_name field_def rest acc)
  show ?case
  proof (cases "(f, fd) = (field_name, field_def)")
    case True
    with 2 have "field_definitions rest (AList.update f fi acc) = Inr m" "f \<notin> fst ` set rest"
      by (auto split: sum.splits option.splits)
    then show ?thesis using field_definitions_other by (fastforce simp: update_conv')
  next
    case False
    with 2 show ?thesis
      by (auto split: sum.splits option.splits)
  qed
qed

lemma valid_field_type:
  "validate_field_definitions fds = Inr () \<Longrightarrow> (f, fd) \<in> set fds \<Longrightarrow>
   \<exists>s. map_of fd ''type'' = Some (PStr s) \<and> s \<in> set valid_types"
  by (induction fds rule: validate_field_definitions.induct)
     (auto split: option.splits if_splits)

lemma field_definition_required:
  assumes "map_of fd ''type'' = Some (PStr s)" and "s \<in> set valid_types"
    and "truthy (dict_get fd ''required'' (PBool False))" and "map_of fd ''default'' = None"
  shows "(\<exists>e. field_definition fd = Inl e) \<or>
         (\<exists>fi. field_definition fd = Inr (Some fi) \<and> f_default fi = Ellipsis)"
  using assms
  by (auto simp: field_definition_def valid_types_def primitive_types_def Let_def
           split: option.splits sum.splits pyval.splits)

lemma field_definition_not_skipped:
  "map_of fd ''type'' = Some (PStr s) \<Longrightarrow> s \<in> set valid_types \<Longrightarrow> field_definition fd \<noteq> Inr None"
  by (auto simp: field_definition_def valid_types_def primitive_types_def Let_def
           split: option.splits sum.splits pyval.splits)

lemma field_definition_default:
  assumes "field_definition fd = Inr (Some fi)"
  shows "f_default fi = (case map_of fd ''default'' of
                     Some d \<Rightarrow> Default d
                   | None \<Rightarrow> if truthy (dict_get fd ''required'' (PBool False)) then Ellipsis
                             else Default PNone)"
proof -
  from assms obtain ft where ft: "map_of fd ''type'' = Some ft"
    by (cases "map_of fd ''type''") (simp_all add: field_definition_def)
  consider (prim) "ft \<in> PStr ` set primitive_types"
    | (arr) "ft \<notin> PStr ` set primitive_types" "ft = PStr ''array''"
    | (obj) "ft \<notin> PStr ` set primitive_types" "ft \<noteq> PStr ''array''" "ft = PStr ''object''"
    | (skip) "ft \<notin> PStr ` set primitive_types" "ft \<noteq> PStr ''array''" "ft \<noteq> PStr ''object''"
    by blast
  then show ?thesis
  proof cases
    case prim
    then show ?thesis using assms ft
      by (auto simp: field_definition_def Let_def split: sum.splits option.splits)
  next
    case arr
    then show ?thesis using assms ft
      by (auto simp: field_definition_def Let_def split: sum.splits option.splits pyval.splits)
  next
    case obj
    then show ?thesis using assms ft
      by (auto simp: field_definition_def Let_def split: option.splits)
  next
    case skip
    then show ?thesis using assms ft
      by (auto simp: field_definition_def Let_def split: option.splits)
  qed
qed

lemma field_definitions_distinct:
  "field_definitions fds acc = Inr m \<Longrightarrow> distinct (map fst acc) \<Longrightarrow> distinct (map fst m)"
proof (induction fds acc rule: field_definitions.induct)
  case (1 acc)
  then show ?case by simp
next
  case (2 field_name field_def rest acc)
  then show ?case
    by (auto split: sum.splits option.splits simp: distinct_update)
qed

lemma field_definitions_keys:
  "field_definitions fds acc = Inr m \<Longrightarrow> validate_field_definitions fds = Inr () \<Longrightarrow>
   distinct (map fst fds) \<Longrightarrow> set (map fst acc) \<inter> set (map fst fds) = {} \<Longrightarrow>
   map fst m = map fst acc @ map fst fds"
proof (induction fds acc rule: field_definitions.induct)
  case (1 acc)
  then show ?case by simp
next
  case (2 field_name field_def rest acc)
  obtain s where s: "map_of field_def ''type'' = Some (PStr s)" "s \<in> set valid_types"
    using valid_field_type [OF "2.prems"(2), of field_name field_def] by auto
  have rest_valid: "validate_field_definitions rest = Inr ()"
    using "2.prems"(2) s by (auto split: if_splits)
  from "2.prems"(1) field_definition_not_skipped [OF s]
  obtain fi where fi: "field_definition field_def = Inr (Some fi)"
    and run: "field_definitions rest (AList.update field_name fi acc) = Inr m"
    by (auto split: sum.splits option.splits)
  have fresh: "field_name \<notin> set (map fst acc)" using "2.prems"(4) by auto
  then have keys: "map fst (AList.update field_name fi acc) = map fst acc @ [field_name]"
    by (simp add: update_keys)
  have "set (map fst (AList.update field_name fi acc)) \<inter> set (map fst rest) = {}"
    using "2.prems"(3,4) keys by auto
  moreover have "distinct (map fst rest)" using "2.prems"(3) by simp
  ultimately have "map fst m = map fst (AList.update field_name fi acc) @ map fst rest"
    using "2.IH"(2) [OF fi refl run rest_valid] by blast
  then show ?case using keys by simp
qed

lemma field_definitions_succeeds:
  "(\<And>n fd. (n, fd) \<in> set fds \<Longrightarrow> \<exists>fi. field_definition fd = Inr (Some fi)) \<Longrightarrow>
   \<exists>m. field_definitions fds acc = Inr m"
proof (induction fds acc rule: field_definitions.induct)
  case (1 acc)
  then show ?case by simp
next
  case (2 field_name field_def rest acc)
  obtain fi where fi: "field_definition field_def = Inr (Some fi)"
    using "2.prems" [of field_name field_def] by auto
  have "\<exists>m. field_definitions rest (AList.update field_name fi acc) = Inr m"
    using "2.IH"(2) [OF fi refl] "2.prems" by auto
  then show ?case using fi by simp
qed

lemma build_fields_Inr:
  "build_fields defs = Inr m \<Longrightarrow> m = filter (\<lambda>(n, fi). \<not> underscore_name n) defs"
proof (induction defs arbitrary: m)
  case Nil
  then show ?case by simp
next
  case (Cons a defs)
  obtain n fi where a: "a = (n, fi)" by (cases a)
  show ?case
  proof (cases "underscore_name n")
    case True
    then show ?thesis using Cons a by simp
  next
    case False
    with Cons.prems a obtain m' where "build_fields defs = Inr m'" "m = (n, fi) # m'"
      by (auto split: if_splits sum.splits)
    then show ?thesis using Cons.IH False a by simp
  qed
qed

lemma build_fields_succeeds:
  "list_all (\<lambda>(n, fi). underscore_name n \<or>
                        (n \<notin> set shadowing_names \<and> has_validator (f_type fi))) defs \<Longrightarrow>
   build_fields defs = Inr (filter (\<lambda>(n, fi). \<not> underscore_name n) defs)"
  by (induction defs) auto

lemma create_model_distinct:
  "create_model defs = Inr m \<Longrightarrow> distinct (map fst defs) \<Longrightarrow> distinct (map fst m)"
proof (cases "list_ex (\<lambda>(n, fi). reserved_name n) defs")
  case True
  assume "create_model defs = Inr m"
  with True obtain m' where "m = AList.clearjunk m'"
    by (auto simp: create_model_def reserved_outcome_def split: sum.splits)
  then show ?thesis by simp
next
  case False
  assume "create_model defs = Inr m" and "distinct (map fst defs)"
  with False show ?thesis
    by (auto simp: create_model_def dest!: build_fields_Inr intro: distinct_map_filter
             split: if_splits)
qed

text \<open>Every field name of a model is a valid field name.\<close>

lemma create_model_valid_fields:
  assumes "create_model defs = Inr m" and "(n, fi) \<in> set m"
  shows "is_valid_field n"
proof (cases "list_ex (\<lambda>(n, fi). reserved_name n) defs")
  case True
  with assms(1) obtain m' where "m = AList.clearjunk (filter (\<lambda>(n, fi). is_valid_field n) m')"
    by (auto simp: create_model_def reserved_outcome_def split: sum.splits)
  then have "fst ` set m = fst ` set (filter (\<lambda>(n, fi). is_valid_field n) m')"
    by (simp only: dom_clearjunk)
  moreover have "n \<in> fst ` set m" using assms(2) by force
  ultimately show ?thesis by auto
next
  case False
  with assms(1) have "m = filter (\<lambda>(n, fi). \<not> underscore_name n) defs"
    by (auto simp: create_model_def dest!: build_fields_Inr split: if_splits)
  then show ?thesis using assms(2) by (auto simp: is_valid_field_def)
qed

lemma create_model_from_schema_Inr:
  "create_model_from_schema S = Inr m \<Longrightarrow>
   \<exists>defs. field_definitions (field_defs S) [] = Inr defs \<and> create_model defs = Inr m"
  by (auto simp: create_model_from_schema_def split: sum.splits)

lemma model_distinct: "create_model_from_schema S = Inr m \<Longrightarrow> distinct (map fst m)"
proof -
  assume "create_model_from_schema S = Inr m"
  then obtain defs where defs: "field_definitions (field_defs S) [] = Inr defs"
    and m: "create_model defs = Inr m"
    using create_model_from_schema_Inr by blast
  have "distinct (map fst defs)"
    using field_definitions_distinct [OF defs] by simp
  then show ?thesis using create_model_distinct [OF m] by blast
qed

lemma model_valid_fields:
  "create_model_from_schema S = Inr m \<Longrightarrow> (n, fi) \<in> set m \<Longrightarrow> is_valid_field n"
  using create_model_from_schema_Inr create_model_valid_fields by blast

lemma not_reserved_defs:
  assumes names: "map fst defs = map fst fds"
    and plain: "list_all (\<lambda>(n, fd). \<not> reserved_name n) fds"
  shows "\<not> list_ex (\<lambda>(n, fi). reserved_name n) defs"
proof
  assume "list_ex (\<lambda>(n, fi). reserved_name n) defs"
  then obtain n fi where mem: "(n, fi) \<in> set defs" and r: "reserved_name n"
    by (auto simp: list_ex_iff)
  from mem have "n \<in> set (map fst defs)" by force
  then have "n \<in> set (map fst fds)" using names by simp
  then show False using plain r by (auto simp: list_all_iff)
qed

text \<open>
  Where no declared name is reserved, the model consists of the entries of
  \<open>field_definitions\<close> whose name does not start with an underscore.
\<close>

lemma model_is_filter:
  assumes m: "create_model_from_schema S = Inr m"
    and valid: "validate_field_definitions (field_defs S) = Inr ()"
    and keys: "distinct (map fst (field_defs S))"
    and plain: "list_all (\<lambda>(n, fd). \<not> reserved_name n) (field_defs S)"
  shows "\<exists>defs. field_definitions (field_defs S) [] = Inr defs \<and>
           map fst defs = map fst (field_defs S) \<and>
           m = filter (\<lambda>(n, fi). \<not> underscore_name n) defs"
proof -
  obtain defs where defs: "field_definitions (field_defs S) [] = Inr defs"
    and cm: "create_model defs = Inr m"
    using create_model_from_schema_Inr [OF m] by blast
  have names: "map fst defs = map fst (field_defs S)"
    using field_definitions_keys [OF defs valid keys] by simp
  have "\<not> list_ex (\<lambda>(n, fi). reserved_name n) defs"
    using not_reserved_defs [OF names plain] .
  then have "build_fields defs = Inr m"
    using cm by (simp add: create_model_def split: if_splits)
  then show ?thesis using defs names build_fields_Inr by blast
qed

lemma model_field:
  assumes m: "create_model_from_schema S = Inr m"
    and valid: "validate_field_definitions (field_defs S) = Inr ()"
    and keys: "distinct (map fst (field_defs S))"
    and plain: "list_all (\<lambda>(n, fd). \<not> reserved_name n) (field_defs S)"
    and decl: "(n, fd) \<in> set (field_defs S)"
    and kept: "\<not> underscore_name n"
  shows "\<exists>fi. field_definition fd = Inr (Some fi) \<and> (n, fi) \<in> set m"
proof -
  obtain defs where defs: "field_definitions (field_defs S) [] = Inr defs"
    and filt: "m = filter (\<lambda>(n, fi). \<not> underscore_name n) defs"
    using model_is_filter [OF m valid keys plain] by blast
  obtain s where s: "map_of fd ''type'' = Some (PStr s)" "s \<in> set valid_types"
    using valid_field_type [OF valid decl] by blast
  have "\<not> (\<exists>e. field_definition fd = Inl e)"
    using field_definitions_Inl [OF decl, of _ "[]"] defs by auto
  then obtain fi where fi: "field_definition fd = Inr (Some fi)"
    using field_definition_not_skipped [OF s] by (cases "field_definition fd") auto
  have "map_of defs n = Some fi"
    using field_definitions_lookup [OF defs keys decl fi] .
  then have "(n, fi) \<in> set defs" by (rule map_of_SomeD)
  then have "(n, fi) \<in> set m" using filt kept by simp
  then show ?thesis using fi by blast
qed

lemma model_underscore:
  assumes m: "create_model_from_schema S = Inr m"
    and valid: "validate_field_definitions (field_defs S) = Inr ()"
    and keys: "distinct (map fst (field_defs S))"
    and plain: "list_all (\<lambda>(n, fd). \<not> reserved_name n) (field_defs S)"
    and under: "underscore_name n"
  shows "n \<notin> set (map fst m)"
  using model_is_filter [OF m valid keys plain] under by auto

text \<open>A buildable schema builds its model.\<close>

lemma items_ok_defined:
  assumes s: "map_of fd ''type'' = Some (PStr s)" "s \<in> set valid_types"
    and ok: "items_ok fd"
  shows "\<exists>fi. field_definition fd = Inr (Some fi)"
proof -
  define ft where "ft = PStr s"
  have ft: "map_of fd ''type'' = Some ft" using s(1) by (simp add: ft_def)
  consider (prim) "ft \<in> PStr ` set primitive_types"
    | (arr) "ft \<notin> PStr ` set primitive_types" "ft = PStr ''array''"
    | (obj) "ft \<notin> PStr ` set primitive_types" "ft \<noteq> PStr ''array''" "ft = PStr ''object''"
    | (skip) "ft \<notin> PStr ` set primitive_types" "ft \<noteq> PStr ''array''" "ft \<noteq> PStr ''object''"
    by blast
  then show ?thesis
  proof cases
    case prim
    then show ?thesis using ft by (auto simp: field_definition_def Let_def ft_def)
  next
    case arr
    with ok ft obtain items where items: "map_of fd ''items'' = Some (PDict items)"
      by (auto simp: items_ok_def split: option.splits pyval.splits)
    with ok ft arr
    have "\<exists>t. get_pydantic_type (dict_get items ''type'' (PStr ''string'')) = Inr t"
      by (cases "dict_get items ''type'' (PStr ''string'')") (auto simp: items_ok_def)
    then show ?thesis
      using ft arr items by (auto simp: field_definition_def Let_def)
  next
    case obj
    then show ?thesis using ft by (auto simp: field_definition_def Let_def)
  next
    case skip
    then have "field_definition fd = Inr None"
      using ft by (auto simp: field_definition_def Let_def)
    then show ?thesis using field_definition_not_skipped [OF s] by simp
  qed
qed

lemma get_pydantic_type_validator:
  "get_pydantic_type v = Inr t \<Longrightarrow> v \<noteq> PStr ''date'' \<Longrightarrow> has_validator t"
proof (cases v)
  case (PStr s)
  assume "get_pydantic_type v = Inr t" and "v \<noteq> PStr ''date''"
  with PStr show ?thesis
    by (auto simp: type_mapping_def split: if_splits)
qed auto

lemma date_free_validator:
  assumes fi: "field_definition fd = Inr (Some fi)" and free: "date_free fd"
  shows "has_validator (f_type fi)"
proof -
  from fi obtain ft where ft: "map_of fd ''type'' = Some ft"
    by (auto simp: field_definition_def split: option.splits)
  consider (prim) "ft \<in> PStr ` set primitive_types"
    | (arr) "ft \<notin> PStr ` set primitive_types" "ft = PStr ''array''"
    | (obj) "ft \<notin> PStr ` set primitive_types" "ft \<noteq> PStr ''array''" "ft = PStr ''object''"
    | (skip) "ft \<notin> PStr ` set primitive_types" "ft \<noteq> PStr ''array''" "ft \<noteq> PStr ''object''"
    by blast
  then show ?thesis
  proof cases
    case prim
    with fi ft obtain t where t: "get_pydantic_type ft = Inr t" "f_type fi = t"
      by (auto simp: field_definition_def Let_def split: sum.splits)
    have "ft \<noteq> PStr ''date''" using free ft by (simp add: date_free_def)
    then show ?thesis using get_pydantic_type_validator t by blast
  next
    case arr
    with fi ft obtain items t where items: "map_of fd ''items'' = Some (PDict items)"
      and t: "get_pydantic_type (dict_get items ''type'' (PStr ''string'')) = Inr t"
        "f_type fi = TList t"
      by (auto simp: field_definition_def Let_def split: sum.splits option.splits pyval.splits)
    have "dict_get items ''type'' (PStr ''string'') \<noteq> PStr ''date''"
      using free ft arr items by (simp add: date_free_def)
    then show ?thesis using get_pydantic_type_validator t by auto
  next
    case obj
    with fi ft show ?thesis by (auto simp: field_definition_def Let_def)
  next
    case skip
    with fi ft show ?thesis by (auto simp: field_definition_def Let_def)
  qed
qed

lemma buildable_builds:
  assumes valid: "validate_field_definitions (field_defs S) = Inr ()"
    and keys: "distinct (map fst (field_defs S))"
    and build: "buildable S"
  shows "\<exists>defs. field_definitions (field_defs S) [] = Inr defs \<and>
           map fst defs = map fst (field_defs S) \<and>
           create_model_from_schema S = Inr (filter (\<lambda>(n, fi). \<not> underscore_name n) defs)"
proof -
  have each: "\<not> reserved_name n \<and> n \<noteq> ''Config'' \<and> items_ok fd \<and>
      (underscore_name n \<or> (n \<notin> set shadowing_names \<and> date_free fd))"
    if "(n, fd) \<in> set (field_defs S)" for n fd
    using build that by (auto simp: buildable_def list_all_iff)
  have "\<exists>fi. field_definition fd = Inr (Some fi)"
    if decl: "(n, fd) \<in> set (field_defs S)" for n fd
  proof -
    obtain s where "map_of fd ''type'' = Some (PStr s)" "s \<in> set valid_types"
      using valid_field_type [OF valid decl] by blast
    then show ?thesis using items_ok_defined each [OF decl] by blast
  qed
  then obtain defs where defs: "field_definitions (field_defs S) [] = Inr defs"
    using field_definitions_succeeds by blast
  have names: "map fst defs = map fst (field_defs S)"
    using field_definitions_keys [OF defs valid keys] by simp
  have dist: "distinct (map fst defs)" using names keys by simp
  have plain: "list_all (\<lambda>(n, fd). \<not> reserved_name n) (field_defs S)"
    using each by (auto simp: list_all_iff)
  have nores: "\<not> list_ex (\<lambda>(n, fi). reserved_name n) defs"
    using not_reserved_defs [OF names plain] .
  have noconf: "''Config'' \<notin> set (map fst defs)"
  proof
    assume "''Config'' \<in> set (map fst defs)"
    then have "''Config'' \<in> set (map fst (field_defs S))" using names by simp
    then show False using each by force
  qed
  have "underscore_name n \<or> (n \<notin> set shadowing_names \<and> has_validator (f_type fi))"
    if mem: "(n, fi) \<in> set defs" for n fi
  proof -
    from mem have "n \<in> set (map fst defs)" by force
    then have "n \<in> set (map fst (field_defs S))" using names by simp
    then obtain fd where decl: "(n, fd) \<in> set (field_defs S)" by auto
    obtain s where s: "map_of fd ''type'' = Some (PStr s)" "s \<in> set valid_types"
      using valid_field_type [OF valid decl] by blast
    obtain fi' where fi': "field_definition fd = Inr (Some fi')"
      using items_ok_defined [OF s] each [OF decl] by blast
    have "map_of defs n = Some fi'"
      using field_definitions_lookup [OF defs keys decl fi'] .
    moreover have "map_of defs n = Some fi" using mem dist by simp
    ultimately have "fi' = fi" by simp
    then show ?thesis using each [OF decl] date_free_validator [OF fi'] by blast
  qed
  then have "list_all (\<lambda>(n, fi). underscore_name n \<or>
                        (n \<notin> set shadowing_names \<and> has_validator (f_type fi))) defs"
    by (auto simp: list_all_iff)
  then have "build_fields defs = Inr (filter (\<lambda>(n, fi). \<not> underscore_name n) defs)"
    by (rule build_fields_succeeds)
  then have "create_model_from_schema S = Inr (filter (\<lambda>(n, fi). \<not> underscore_name n) defs)"
    using defs nores noconf by (simp add: create_model_from_schema_def create_model_def)
  then show ?thesis using defs names by blast
qed

section \<open>Validation of values and of the model\<close>

lemma lax_kind: "lax t v = Inr w \<Longrightarrow> has_kind t w"
  by (auto simp: lax_def split: sum.splits if_splits)

lemma conforms_accepted: "conforms t v \<Longrightarrow> validate_type t v = Inr v"
proof (induction t arbitrary: v)
  case (TList t)
  then obtain xs where v: "v = PList xs" and all: "list_all (conforms t) xs"
    by (cases v) auto
  have "map (validate_type t) xs = map Inr xs"
    using all TList.IH by (induction xs) auto
  then have "gather (map (validate_type t) xs) = Inr xs"
    by (simp only: gather_map_Inr)
  then show ?case using v by simp
qed (auto split: pyval.splits)

lemma validated_conforms: "validate_type t v = Inr w \<Longrightarrow> conforms t w"
proof (induction t arbitrary: v w)
  case (TList t)
  from TList.prems obtain xs ws where v: "v = PList xs" and w: "w = PList ws"
    and g: "gather (map (validate_type t) xs) = Inr ws"
    by (cases v) (auto split: sum.splits)
  from g have "map (validate_type t) xs = map Inr ws" by (simp add: gather_Inr_iff)
  then have "list_all (conforms t) ws"
    using TList.IH
  proof (induction xs arbitrary: ws)
    case Nil
    then show ?case by simp
  next
    case (Cons x xs)
    then show ?case by (cases ws) auto
  qed
  then show ?case using w by simp
next
  case TInt
  then show ?case
    by (cases v) (auto split: option.splits if_splits dest: lax_kind)
next
  case TStr
  then show ?case by (cases v) (auto dest: lax_kind)
next
  case TFloat
  then show ?case by (cases v) (auto split: if_splits dest: lax_kind)
next
  case TBool
  then show ?case by (cases v) (auto dest: lax_kind)
next
  case TDatetime
  then show ?case by (cases v) (auto dest: lax_kind)
next
  case TDict
  then show ?case by (cases v) (auto dest: lax_kind)
qed auto

lemma validate_type_idem: "validate_type t v = Inr w \<Longrightarrow> validate_type t w = Inr w"
  by (rule conforms_accepted) (rule validated_conforms)

lemma validate_model_Nil: "validate_model [] data = Inr []"
  by (simp add: validate_model_def)

lemma validate_model_Cons:
  "validate_model ((n, fi) # m) data = Inr V \<longleftrightarrow>
   (\<exists>w V'. V = (n, w) # V' \<and> field_value fi (map_of data n) = Inr w \<and> validate_model m data = Inr V')"
proof (cases "field_value fi (map_of data n)")
  case (Inl e)
  obtain e' where "gather (Inl e # map (\<lambda>(n, fi). field_value fi (map_of data n)) m) = Inl e'"
    using gather_Inl_mem [of e "Inl e # map (\<lambda>(n, fi). field_value fi (map_of data n)) m"]
    by auto
  then show ?thesis using Inl by (simp add: validate_model_def del: gather.simps)
next
  case w: (Inr w)
  show ?thesis
  proof (cases "gather (map (\<lambda>(n, fi). field_value fi (map_of data n)) m)")
    case (Inl e)
    then show ?thesis using w by (simp add: validate_model_def)
  next
    case (Inr vs)
    then show ?thesis using w by (auto simp: validate_model_def)
  qed
qed

lemma validate_model_keys: "validate_model m data = Inr V \<Longrightarrow> map fst V = map fst m"
proof (induction m arbitrary: V)
  case Nil
  then show ?case by (simp add: validate_model_def)
next
  case (Cons a m)
  obtain n fi where a: "a = (n, fi)" by (cases a)
  from Cons.prems obtain w V' where "V = (n, w) # V'" "validate_model m data = Inr V'"
    unfolding a validate_model_Cons by blast
  then show ?case using Cons.IH a by simp
qed

lemma validate_model_value:
  "validate_model m data = Inr V \<Longrightarrow> distinct (map fst m) \<Longrightarrow> (n, fi) \<in> set m \<Longrightarrow>
   \<exists>w. field_value fi (map_of data n) = Inr w \<and> map_of V n = Some w"
proof (induction m arbitrary: V)
  case Nil
  then show ?case by simp
next
  case (Cons a m)
  obtain n' fi' where a: "a = (n', fi')" by (cases a)
  from Cons.prems(1) obtain w V' where V: "V = (n', w) # V'"
    and w: "field_value fi' (map_of data n') = Inr w" and V': "validate_model m data = Inr V'"
    unfolding a validate_model_Cons by blast
  show ?case
  proof (cases "(n, fi) = (n', fi')")
    case True
    then show ?thesis using V w by simp
  next
    case False
    then have mem: "(n, fi) \<in> set m" using Cons.prems(3) a by auto
    then have "n \<noteq> n'" using Cons.prems(2) a by force
    moreover have "distinct (map fst m)" using Cons.prems(2) by simp
    ultimately show ?thesis using Cons.IH [OF V' _ mem] V by simp
  qed
qed

lemma validate_model_succeeds:
  "(\<And>n fi. (n, fi) \<in> set m \<Longrightarrow> \<exists>w. field_value fi (map_of data n) = Inr w) \<Longrightarrow>
   \<exists>V. validate_model m data = Inr V"
proof (induction m)
  case Nil
  then show ?case by (simp add: validate_model_Nil)
next
  case (Cons a m)
  obtain n fi where a: "a = (n, fi)" by (cases a)
  from Cons.prems obtain w where "field_value fi (map_of data n) = Inr w" using a by auto
  moreover from Cons obtain V' where "validate_model m data = Inr V'" by auto
  ultimately show ?case unfolding a validate_model_Cons by blast
qed

lemma validate_model_fixed:
  "distinct (map fst m) \<Longrightarrow> map fst V = map fst m \<Longrightarrow>
   (\<And>n fi. (n, fi) \<in> set m \<Longrightarrow>
      \<exists>w. map_of V n = Some w \<and> field_value fi (map_of data n) = Inr w) \<Longrightarrow>
   validate_model m data = Inr V"
proof (induction m arbitrary: V)
  case Nil
  then show ?case by (simp add: validate_model_Nil)
next
  case (Cons a m)
  obtain n fi where a: "a = (n, fi)" by (cases a)
  from Cons.prems(2) a obtain w V' where V: "V = (n, w) # V'" and V': "map fst V' = map fst m"
    by (cases V) auto
  have fresh: "n \<notin> set (map fst m)" and dist: "distinct (map fst m)"
    using Cons.prems(1) a by auto
  have head: "field_value fi (map_of data n) = Inr w"
    using Cons.prems(3) [of n fi] a V by auto
  have "\<exists>w'. map_of V' n' = Some w' \<and> field_value fi' (map_of data n') = Inr w'"
    if "(n', fi') \<in> set m" for n' fi'
  proof -
    from that fresh have "n' \<noteq> n" by force
    then show ?thesis using Cons.prems(3) [of n' fi'] that V by auto
  qed
  then have "validate_model m data = Inr V'"
    using Cons.IH [OF dist V'] by blast
  then show ?case unfolding a validate_model_Cons using V head by blast
qed

lemma validate_model_only_validation:
  assumes only: "only_validation_errors m D" and mem: "(n, fi) \<in> set m"
    and bad: "field_value fi (map_of D n) = Inl e"
  shows "validate_model m D = Inl ValidationError"
proof -
  let ?rs = "map (\<lambda>(n, fi). field_value fi (map_of D n)) m"
  have "list_all (\<lambda>r. case r of Inl e \<Rightarrow> e = ValidationError | Inr v \<Rightarrow> True) ?rs"
    using only by (auto simp: only_validation_errors_def list_all_iff)
  moreover have "Inl e \<in> set ?rs" using mem bad by force
  then have "list_ex isl ?rs" unfolding list_ex_iff by (rule bexI [rotated]) simp
  ultimately have "gather ?rs = Inl ValidationError" by (rule gather_only_validation)
  then show ?thesis by (simp add: validate_model_def)
qed

lemma validate_data_Inr:
  "validate_data S D = Inr V \<longleftrightarrow>
   (\<exists>m. create_model_from_schema S = Inr m \<and> \<not> has_key D ''__pydantic_self__'' \<and>
        validate_model m D = Inr V)"
  by (auto simp: validate_data_def instantiate_def split: sum.splits if_splits)

lemma validate_data_field_Inl:
  assumes m: "create_model_from_schema S = Inr m" and mem: "(n, fi) \<in> set m"
    and bad: "field_value fi (map_of D n) = Inl e"
  shows "\<exists>e'. validate_data S D = Inl e'"
proof (cases "validate_data S D")
  case (Inl e')
  then show ?thesis by blast
next
  case (Inr V)
  then have "validate_model m D = Inr V" using m by (auto simp: validate_data_Inr)
  then obtain w where "field_value fi (map_of D n) = Inr w"
    using validate_model_value [OF _ model_distinct [OF m] mem] by blast
  with bad show ?thesis by simp
qed

text \<open>No key of a validated document is \<open>__pydantic_self__\<close>.\<close>

lemma validated_keys_plain:
  assumes m: "create_model_from_schema S = Inr m" and run: "validate_model m D = Inr V"
  shows "\<not> has_key V ''__pydantic_self__''"
proof
  assume "has_key V ''__pydantic_self__''"
  then have "''__pydantic_self__'' \<in> set (map fst V)"
    by (simp add: has_key_def map_of_eq_None_iff)
  then have "''__pydantic_self__'' \<in> set (map fst m)"
    unfolding validate_model_keys [OF run] .
  then obtain fi where "(''__pydantic_self__'', fi) \<in> set m" by auto
  then have "is_valid_field ''__pydantic_self__''"
    using model_valid_fields [OF m] by blast
  then show False by (simp add: is_valid_field_def underscore_name_def)
qed

lemma field_value_refix:
  assumes w: "field_value fi input = Inr w"
    and dflt: "case f_default fi of Ellipsis \<Rightarrow> True | Default d \<Rightarrow> validate_field fi d = Inr d"
  shows "field_value fi (Some w) = Inr w"
proof (cases input)
  case None
  with w have "f_default fi = Default w"
    by (cases "f_default fi") (auto simp: field_value_def)
  with dflt show ?thesis by (simp add: field_value_def)
next
  case (Some v)
  show ?thesis
  proof (cases "v = PNone")
    case True
    with w Some show ?thesis
      by (auto simp: field_value_def validate_field_def split: if_splits)
  next
    case False
    with w Some have vt: "validate_type (f_type fi) v = Inr w"
      by (simp add: field_value_def validate_field_def)
    then have idem: "validate_type (f_type fi) w = Inr w" by (rule validate_type_idem)
    show ?thesis
    proof (cases "w = PNone")
      case True
      with vt have "f_type fi = TAny"
        using validated_conforms [OF vt] by (cases "f_type fi") auto
      with vt have "w = v" by simp
      with True False show ?thesis by simp
    next
      case False
      then show ?thesis using idem by (simp add: field_value_def validate_field_def)
    qed
  qed
qed

lemma supplies_accepted: "supplies fi input \<Longrightarrow> \<exists>w. field_value fi input = Inr w"
proof (cases input)
  case None
  assume "supplies fi input"
  with None show ?thesis
    by (cases "f_default fi") (auto simp: supplies_def field_value_def)
next
  case (Some v)
  assume "supplies fi input"
  with Some show ?thesis
    by (auto simp: supplies_def field_value_def validate_field_def conforms_accepted
             split: if_splits)
qed

lemma missing_required_field:
  assumes valid: "validate_field_definitions (field_defs S) = Inr ()"
    and keys: "distinct (map fst (field_defs S))"
    and plain: "list_all (\<lambda>(n, fd). \<not> reserved_name n) (field_defs S)"
    and decl: "(f, fd) \<in> set (field_defs S)"
    and kept: "\<not> underscore_name f"
    and req: "truthy (dict_get fd ''required'' (PBool False))"
    and nodefault: "map_of fd ''default'' = None"
    and absent: "map_of D f = None"
    and m: "create_model_from_schema S = Inr m"
  shows "\<exists>fi. (f, fi) \<in> set m \<and> field_value fi (map_of D f) = Inl ValidationError"
proof -
  obtain fi where fi: "field_definition fd = Inr (Some fi)" "(f, fi) \<in> set m"
    using model_field [OF m valid keys plain decl kept] by blast
  obtain s where s: "map_of fd ''type'' = Some (PStr s)" "s \<in> set valid_types"
    using valid_field_type [OF valid decl] by blast
  have "f_default fi = Ellipsis"
    using field_definition_required [OF s req nodefault] fi(1) by auto
  then have "field_value fi (map_of D f) = Inl ValidationError"
    using absent by (simp add: field_value_def)
  then show ?thesis using fi(2) by blast
qed

section \<open>Values whose kind differs from the declared type\<close>

lemma letter_no_digit: "is_ascii_letter c \<Longrightarrow> digit_of c = None"
  by (auto simp: is_ascii_letter_def digit_of_def Let_def)

lemma digits_val_letter: "list_ex is_ascii_letter s \<Longrightarrow> digits_val acc s = None"
  by (induction s arbitrary: acc) (auto simp: letter_no_digit split: option.splits)

lemma int_of_digits_letter: "list_ex is_ascii_letter s \<Longrightarrow> int_of_digits s = None"
  by (auto simp: int_of_digits_def digits_val_letter)

lemma rejected_validate_type: "rejected t v \<Longrightarrow> validate_type t v = Inl ValidationError"
  by (cases t; cases v) (auto simp: int_of_digits_letter)

lemma rejected_not_None: "rejected t v \<Longrightarrow> v \<noteq> PNone"
  by (cases t; cases v) auto

section \<open>Evaluating the example data\<close>

lemmas eval_defs =
  validate_data_def instantiate_def create_model_from_schema_def field_definition_def
  dict_get_def primitive_types_def type_mapping_def create_model_def reserved_name_def
  private_names_def shadowing_names_def underscore_name_def validate_model_def
  field_value_def validate_field_def allow_none_def int_of_digits_def digit_of_def
  is_ascii_letter_def valid_types_def has_key_def

lemmas buildable_defs =
  buildable_def reserved_name_def private_names_def shadowing_names_def underscore_name_def
  items_ok_def date_free_def

lemma user_schema_valid: "validate_field_definitions (field_defs user_schema) = Inr ()"
  by (simp add: user_schema_def valid_types_def has_key_def)

lemma user_schema_keys: "distinct (map fst (field_defs user_schema))"
  by (simp add: user_schema_def)

lemma user_schema_model: "create_model_from_schema user_schema = Inr user_model"
  by (simp add: user_schema_def user_model_def eval_defs)

lemma user_schema_plain: "list_all (\<lambda>(n, fd). \<not> reserved_name n) (field_defs user_schema)"
  by (simp add: user_schema_def reserved_name_def private_names_def)

lemma user_schema_buildable: "buildable user_schema"
  by (simp add: user_schema_def buildable_defs)

lemma tracked_schema_valid: "validate_field_definitions (field_defs tracked_schema) = Inr ()"
  by (simp add: tracked_schema_def valid_types_def has_key_def)

lemma tracked_schema_keys: "distinct (map fst (field_defs tracked_schema))"
  by (simp add: tracked_schema_def)

lemma tracked_schema_plain:
  "list_all (\<lambda>(n, fd). \<not> reserved_name n) (field_defs tracked_schema)"
  by (simp add: tracked_schema_def reserved_name_def private_names_def)

lemma tracked_schema_buildable: "buildable tracked_schema"
  by (simp add: tracked_schema_def buildable_defs)

lemma tracked_schema_model: "create_model_from_schema tracked_schema = Inr user_model"
  by (simp add: tracked_schema_def user_model_def eval_defs)

section \<open>Documents that conform to the schema\<close>

text \<open>
  Claim C1, as the code has it.  Let \<open>S\<close> pass the validator of \<open>SchemaDefinition\<close>
  (its field names distinct, as the keys of a dictionary are) and be buildable.  Then
  \<open>create_model_from_schema\<close> returns a model, whose fields are the declared fields whose
  name does not start with an underscore, in their order.  If the document \<open>D\<close> has no
  key \<open>__pydantic_self__\<close> and supplies every field of the model correctly (every field
  that is present holds a value of its declared type, optional fields included, and every
  field that is absent has a default), then \<open>validate_data S D\<close> returns a document whose
  keys are exactly those field names: every other key of \<open>D\<close> is dropped.
\<close>

theorem conforming_document_accepted:
  assumes valid: "validate_field_definitions (field_defs S) = Inr ()"
    and keys: "distinct (map fst (field_defs S))"
    and build: "buildable S"
  shows "\<exists>m. create_model_from_schema S = Inr m \<and>
           map fst m = filter (\<lambda>n. \<not> underscore_name n) (map fst (field_defs S)) \<and>
           (\<not> has_key D ''__pydantic_self__'' \<and>
            list_all (\<lambda>(n, fi). supplies fi (map_of D n)) m \<longrightarrow>
              (\<exists>V. validate_data S D = Inr V \<and>
                   map fst V = filter (\<lambda>n. \<not> underscore_name n) (map fst (field_defs S))))"
proof -
  obtain defs where names: "map fst defs = map fst (field_defs S)"
    and m: "create_model_from_schema S = Inr (filter (\<lambda>(n, fi). \<not> underscore_name n) defs)"
    using buildable_builds [OF valid keys build] by blast
  let ?m = "filter (\<lambda>(n, fi). \<not> underscore_name n) defs"
  have "map fst ?m = filter (\<lambda>n. \<not> underscore_name n) (map fst defs)"
    by (induction defs) auto
  then have fields: "map fst ?m = filter (\<lambda>n. \<not> underscore_name n) (map fst (field_defs S))"
    using names by simp
  have "\<exists>V. validate_data S D = Inr V \<and>
            map fst V = filter (\<lambda>n. \<not> underscore_name n) (map fst (field_defs S))"
    if nokey: "\<not> has_key D ''__pydantic_self__''"
      and sup: "list_all (\<lambda>(n, fi). supplies fi (map_of D n)) ?m"
  proof -
    have "\<exists>w. field_value fi (map_of D n) = Inr w" if mem: "(n, fi) \<in> set ?m" for n fi
    proof -
      have "supplies fi (map_of D n)" using sup mem unfolding list_all_iff by blast
      then show ?thesis by (rule supplies_accepted)
    qed
    then obtain V where V: "validate_model ?m D = Inr V"
      using validate_model_succeeds by blast
    then have "validate_data S D = Inr V"
      using m nokey unfolding validate_data_Inr by blast
    moreover have "map fst V = filter (\<lambda>n. \<not> underscore_name n) (map fst (field_defs S))"
      using validate_model_keys [OF V] fields by simp
    ultimately show ?thesis by blast
  qed
  then show ?thesis using m fields by blast
qed

theorem conforming_document_accepted_witness:
  "validate_field_definitions (field_defs tracked_schema) = Inr () \<and>
   distinct (map fst (field_defs tracked_schema)) \<and>
   buildable tracked_schema \<and>
   create_model_from_schema tracked_schema = Inr user_model \<and>
   \<not> has_key [(''name'', PStr ''Hong''), (''age'', PInt 30), (''nickname'', PStr ''gildong'')]
       ''__pydantic_self__'' \<and>
   list_all (\<lambda>(n, fi). supplies fi
      (map_of [(''name'', PStr ''Hong''), (''age'', PInt 30), (''nickname'', PStr ''gildong'')] n))
      user_model \<and>
   (\<exists>V. validate_data tracked_schema
          [(''name'', PStr ''Hong''), (''age'', PInt 30), (''nickname'', PStr ''gildong'')] = Inr V \<and>
        map fst V = [''name'', ''age'', ''email''])"
proof -
  let ?D = "[(''name'', PStr ''Hong''), (''age'', PInt 30), (''nickname'', PStr ''gildong'')]"
  have nokey: "\<not> has_key ?D ''__pydantic_self__''"
    by (simp add: has_key_def)
  have sup: "list_all (\<lambda>(n, fi). supplies fi (map_of ?D n)) user_model"
    by (simp add: user_model_def supplies_def allow_none_def)
  have names: "filter (\<lambda>n. \<not> underscore_name n) (map fst (field_defs tracked_schema)) =
      [''name'', ''age'', ''email'']"
    by (simp add: tracked_schema_def underscore_name_def)
  have "\<exists>V. validate_data tracked_schema ?D = Inr V \<and> map fst V = [''name'', ''age'', ''email'']"
    using conforming_document_accepted
      [OF tracked_schema_valid tracked_schema_keys tracked_schema_buildable, of ?D]
      tracked_schema_model nokey sup names
    by auto
  then show ?thesis
    using tracked_schema_valid tracked_schema_keys tracked_schema_buildable tracked_schema_model
      nokey sup
    by blast
qed

text \<open>
  Claim C1 as stated fails.  A schema that passes the validator need not yield a model:
  \<open>items\<close> given as a string makes \<open>create_model_from_schema\<close> raise
  \<open>AttributeError\<close>.  A document that supplies every required field with a value of
  the right type is still refused when an optional field holds a value of the wrong type.
  And the undeclared key \<open>__pydantic_self__\<close> is not dropped: it makes the call raise
  \<open>TypeError\<close>.
\<close>

theorem conforming_document_counterexample:
  "validate_field_definitions (field_defs tags_schema) = Inr () \<and>
   validate_data tags_schema [] = Inl AttributeError \<and>
   validate_field_definitions (field_defs user_schema) = Inr () \<and>
   validate_data user_schema
     [(''name'', PStr ''Hong''), (''age'', PInt 30), (''email'', PList [])] = Inl ValueError \<and>
   validate_data user_schema
     [(''name'', PStr ''Hong''), (''age'', PInt 30), (''__pydantic_self__'', PInt 1)] =
     Inl TypeError"
  by (simp add: tags_schema_def user_schema_def eval_defs)

section \<open>A value whose kind differs from the declared type\<close>

text \<open>
  Claim C2, as the code has it.  Let \<open>n\<close> be a field of the model built from \<open>S\<close>, with
  runtime type \<open>f_type fi\<close>, and let \<open>D\<close> supply the value \<open>v\<close> for it.  If \<open>v\<close> is of
  a kind the validator rejects (a list or an object where a string, an integer, a number
  or a boolean is declared, anything but a list where an array is declared, a string
  holding an ASCII letter where an integer is declared), then \<open>validate_data S D\<close>
  raises.  But whenever \<open>validate_data S D\<close> returns a document \<open>V\<close>: a string of at
  most 4300 decimal digits supplied where an integer is declared has been converted to
  that integer, a boolean likewise to 0 or 1, an integer in the range of a double supplied
  where a number is declared has been converted to a float, and a value of the declared
  type is unchanged.
\<close>

theorem type_mismatch_outcomes:
  assumes m: "create_model_from_schema S = Inr m"
    and mem: "(n, fi) \<in> set m"
    and present: "map_of D n = Some v"
  shows "(rejected (f_type fi) v \<longrightarrow> (\<exists>e. validate_data S D = Inl e)) \<and>
         (\<forall>V. validate_data S D = Inr V \<longrightarrow>
            (f_type fi = TInt \<and> v = PStr s \<and> int_of_digits s = Some k \<and> length s \<le> 4300
               \<longrightarrow> map_of V n = Some (PInt k)) \<and>
            (f_type fi = TInt \<and> v = PBool b \<longrightarrow> map_of V n = Some (PInt (if b then 1 else 0))) \<and>
            (f_type fi = TFloat \<and> v = PInt k \<and> \<bar>k\<bar> < 2 ^ 1023
               \<longrightarrow> map_of V n = Some (PFloat (float_of_int k))) \<and>
            (conforms (f_type fi) v \<and> v \<noteq> PNone \<longrightarrow> map_of V n = Some v))"
proof (intro conjI impI allI)
  assume r: "rejected (f_type fi) v"
  have "validate_field fi v = Inl ValidationError"
    using rejected_validate_type [OF r] rejected_not_None [OF r] by (simp add: validate_field_def)
  then have "field_value fi (map_of D n) = Inl ValidationError"
    using present by (simp add: field_value_def)
  then show "\<exists>e. validate_data S D = Inl e"
    using validate_data_field_Inl [OF m mem] by blast
next
  fix V
  assume ok: "validate_data S D = Inr V"
  then have run: "validate_model m D = Inr V" using m by (auto simp: validate_data_Inr)
  obtain w where w: "validate_field fi v = Inr w" "map_of V n = Some w"
    using validate_model_value [OF run model_distinct [OF m] mem] present
    by (auto simp: field_value_def)
  {
    assume "f_type fi = TInt \<and> v = PStr s \<and> int_of_digits s = Some k \<and> length s \<le> 4300"
    then show "map_of V n = Some (PInt k)" using w by (auto simp: validate_field_def)
  next
    assume "f_type fi = TInt \<and> v = PBool b"
    then show "map_of V n = Some (PInt (if b then 1 else 0))"
      using w by (auto simp: validate_field_def)
  next
    assume "f_type fi = TFloat \<and> v = PInt k \<and> \<bar>k\<bar> < 2 ^ 1023"
    then show "map_of V n = Some (PFloat (float_of_int k))"
      using w by (auto simp: validate_field_def)
  next
    assume "conforms (f_type fi) v \<and> v \<noteq> PNone"
    then show "map_of V n = Some v"
      using w conforms_accepted [of "f_type fi" v] by (auto simp: validate_field_def)
  }
qed

theorem type_mismatch_outcomes_witness:
  "create_model_from_schema user_schema = Inr user_model \<and>
   (''age'', \<lparr>f_type = TInt, f_optional = False, f_default = Ellipsis\<rparr>) \<in> set user_model \<and>
   map_of [(''name'', PStr ''Hong''), (''age'', PStr ''30'')] ''age'' = Some (PStr ''30'') \<and>
   int_of_digits ''30'' = Some 30 \<and> length ''30'' \<le> 4300 \<and>
   validate_data user_schema [(''name'', PStr ''Hong''), (''age'', PStr ''30'')] =
     Inr [(''name'', PStr ''Hong''), (''age'', PInt 30), (''email'', PNone)] \<and>
   map_of [(''name'', PStr ''Hong''), (''age'', PInt 30), (''email'', PNone)] ''age'' = Some (PInt 30)"
proof -
  have mem: "(''age'', \<lparr>f_type = TInt, f_optional = False, f_default = Ellipsis\<rparr>) \<in> set user_model"
    by (simp add: user_model_def)
  have present: "map_of [(''name'', PStr ''Hong''), (''age'', PStr ''30'')] ''age'' = Some (PStr ''30'')"
    by simp
  have digits: "int_of_digits ''30'' = Some 30" "length ''30'' \<le> 4300"
    by (simp_all add: int_of_digits_def digit_of_def)
  have ok: "validate_data user_schema [(''name'', PStr ''Hong''), (''age'', PStr ''30'')] =
     Inr [(''name'', PStr ''Hong''), (''age'', PInt 30), (''email'', PNone)]"
    by (simp add: user_schema_def eval_defs)
  have "map_of [(''name'', PStr ''Hong''), (''age'', PInt 30), (''email'', PNone)] ''age'' = Some (PInt 30)"
    using type_mismatch_outcomes [OF user_schema_model mem present, of "''30''" 30 True]
      digits ok by simp
  then show ?thesis using user_schema_model mem present digits ok by blast
qed

text \<open>
  Claim C2 as stated fails: the string \<open>"30"\<close> supplied for the integer field \<open>age\<close>
  is not refused, it is silently converted to the integer 30.
\<close>

theorem digit_string_coerced_to_integer:
  "validate_data user_schema [(''name'', PStr ''Hong''), (''age'', PStr ''30'')] =
     Inr [(''name'', PStr ''Hong''), (''age'', PInt 30), (''email'', PNone)]"
  by (simp add: user_schema_def eval_defs)

section \<open>Contents of a validated document\<close>

text \<open>
  Claim C4, as the code has it.  Let \<open>S\<close> pass the validator, with no reserved name
  among its field names, and let \<open>validate_data S D\<close> return a document \<open>V\<close>.  Every
  declared field \<open>n\<close> of \<open>S\<close> whose name does not start with an underscore is a key
  of \<open>V\<close>: when \<open>n\<close> is present in \<open>D\<close>, \<open>V\<close> holds the value the field's validation
  returns for the supplied value; when \<open>n\<close> is absent, \<open>V\<close> holds the field's
  \<open>default\<close>, and \<open>None\<close> when the field declares no default.  No such field is
  omitted.  A declared field whose name starts with an underscore is no key of \<open>V\<close>,
  whether \<open>D\<close> supplies it or not.
\<close>

theorem validated_document_contents:
  assumes ok: "validate_data S D = Inr V"
    and valid: "validate_field_definitions (field_defs S) = Inr ()"
    and keys: "distinct (map fst (field_defs S))"
    and plain: "list_all (\<lambda>(n, fd). \<not> reserved_name n) (field_defs S)"
    and decl: "(n, fd) \<in> set (field_defs S)"
  shows "if underscore_name n then map_of V n = None
         else (case map_of D n of
                 Some v \<Rightarrow> \<exists>fi w. field_definition fd = Inr (Some fi) \<and>
                                    validate_field fi v = Inr w \<and> map_of V n = Some w
               | None \<Rightarrow> map_of V n = Some (dict_get fd ''default'' PNone))"
proof -
  from ok obtain m where m: "create_model_from_schema S = Inr m"
    and run: "validate_model m D = Inr V"
    unfolding validate_data_Inr by blast
  show ?thesis
  proof (cases "underscore_name n")
    case True
    have "n \<notin> set (map fst m)"
      using model_underscore [OF m valid keys plain True] .
    then have "n \<notin> set (map fst V)"
      unfolding validate_model_keys [OF run] .
    then have "map_of V n = None" by (simp add: map_of_eq_None_iff)
    then show ?thesis using True by simp
  next
    case False
    obtain fi where fi: "field_definition fd = Inr (Some fi)" "(n, fi) \<in> set m"
      using model_field [OF m valid keys plain decl False] by blast
    obtain w where w: "field_value fi (map_of D n) = Inr w" "map_of V n = Some w"
      using validate_model_value [OF run model_distinct [OF m] fi(2)] by blast
    show ?thesis
    proof (cases "map_of D n")
      case None
      with w(1) have "f_default fi = Default w"
        by (cases "f_default fi") (auto simp: field_value_def)
      then have "w = dict_get fd ''default'' PNone"
        using field_definition_default [OF fi(1)]
        by (auto simp: dict_get_def split: option.splits if_splits)
      then show ?thesis using None w(2) False by simp
    next
      case (Some v)
      then show ?thesis using w fi(1) False by (auto simp: field_value_def)
    qed
  qed
qed

theorem validated_document_contents_witness:
  "validate_data tracked_schema
     [(''_rev'', PInt 7), (''name'', PStr ''Hong''), (''age'', PStr ''30'')] =
     Inr [(''name'', PStr ''Hong''), (''age'', PInt 30), (''email'', PNone)] \<and>
   validate_field_definitions (field_defs tracked_schema) = Inr () \<and>
   distinct (map fst (field_defs tracked_schema)) \<and>
   list_all (\<lambda>(n, fd). \<not> reserved_name n) (field_defs tracked_schema) \<and>
   (''age'', [(''type'', PStr ''integer''), (''required'', PBool True)])
     \<in> set (field_defs tracked_schema) \<and>
   \<not> underscore_name ''age'' \<and>
   map_of [(''_rev'', PInt 7), (''name'', PStr ''Hong''), (''age'', PStr ''30'')] ''age'' =
     Some (PStr ''30'') \<and>
   (\<exists>fi w. field_definition [(''type'', PStr ''integer''), (''required'', PBool True)] =
             Inr (Some fi) \<and>
           validate_field fi (PStr ''30'') = Inr w \<and>
           map_of [(''name'', PStr ''Hong''), (''age'', PInt 30), (''email'', PNone)] ''age'' =
             Some w)"
proof -
  let ?D = "[(''_rev'', PInt 7), (''name'', PStr ''Hong''), (''age'', PStr ''30'')]"
  let ?V = "[(''name'', PStr ''Hong''), (''age'', PInt 30), (''email'', PNone)]"
  let ?fd = "[(''type'', PStr ''integer''), (''required'', PBool True)]"
  have ok: "validate_data tracked_schema ?D = Inr ?V"
    by (simp add: tracked_schema_def eval_defs)
  have decl: "(''age'', ?fd) \<in> set (field_defs tracked_schema)"
    by (simp add: tracked_schema_def)
  have kept: "\<not> underscore_name ''age''"
    by (simp add: underscore_name_def)
  have present: "map_of ?D ''age'' = Some (PStr ''30'')"
    by simp
  have "\<exists>fi w. field_definition ?fd = Inr (Some fi) \<and> validate_field fi (PStr ''30'') = Inr w \<and>
          map_of ?V ''age'' = Some w"
    using validated_document_contents
      [OF ok tracked_schema_valid tracked_schema_keys tracked_schema_plain decl]
      kept present
    by simp
  then show ?thesis
    using ok tracked_schema_valid tracked_schema_keys tracked_schema_plain decl kept present
    by blast
qed

text \<open>
  Claim C4 as stated fails: an optional field without default that is absent from the
  input is not omitted from the output; the output maps it to \<open>None\<close>.
\<close>

theorem absent_optional_field_not_omitted:
  "validate_data nickname_schema [] = Inr [(''nickname'', PNone)] \<and>
   has_key [(''nickname'', PNone)] ''nickname''"
  by (simp add: nickname_schema_def eval_defs)

section \<open>A required field that is absent\<close>

text \<open>
  Claim C5, as the code has it.  Let \<open>S\<close> pass the validator, with no reserved name
  among its field names.  If a field of \<open>S\<close> whose name does not start with an
  underscore is marked required, has no default and is absent from the document \<open>D\<close>,
  then \<open>validate_data S D\<close> raises: it returns no document.  If moreover \<open>S\<close> is
  buildable, its model is built, and what is raised is the \<open>ValueError\<close> of a failed
  validation unless \<open>D\<close> has the key \<open>__pydantic_self__\<close> or a field of the model raises
  an exception that is no validation error.
\<close>

theorem required_field_absent_fails:
  assumes valid: "validate_field_definitions (field_defs S) = Inr ()"
    and keys: "distinct (map fst (field_defs S))"
    and plain: "list_all (\<lambda>(n, fd). \<not> reserved_name n) (field_defs S)"
    and decl: "(f, fd) \<in> set (field_defs S)"
    and kept: "\<not> underscore_name f"
    and req: "truthy (dict_get fd ''required'' (PBool False))"
    and nodefault: "map_of fd ''default'' = None"
    and absent: "map_of D f = None"
  shows "(\<exists>e. validate_data S D = Inl e) \<and>
         (buildable S \<longrightarrow>
            (\<exists>m. create_model_from_schema S = Inr m \<and>
                 (\<not> has_key D ''__pydantic_self__'' \<and> only_validation_errors m D \<longrightarrow>
                    validate_data S D = Inl ValueError)))"
proof
  show "\<exists>e. validate_data S D = Inl e"
  proof (cases "create_model_from_schema S")
    case (Inl e)
    then show ?thesis by (simp add: validate_data_def)
  next
    case (Inr m)
    obtain fi where "(f, fi) \<in> set m" "field_value fi (map_of D f) = Inl ValidationError"
      using missing_required_field [OF valid keys plain decl kept req nodefault absent Inr]
      by blast
    then show ?thesis using validate_data_field_Inl [OF Inr] by blast
  qed
next
  show "buildable S \<longrightarrow>
          (\<exists>m. create_model_from_schema S = Inr m \<and>
               (\<not> has_key D ''__pydantic_self__'' \<and> only_validation_errors m D \<longrightarrow>
                  validate_data S D = Inl ValueError))"
  proof
    assume "buildable S"
    then obtain m where m: "create_model_from_schema S = Inr m"
      using buildable_builds [OF valid keys] by blast
    obtain fi where fi: "(f, fi) \<in> set m" "field_value fi (map_of D f) = Inl ValidationError"
      using missing_required_field [OF valid keys plain decl kept req nodefault absent m]
      by blast
    have "validate_data S D = Inl ValueError"
      if "\<not> has_key D ''__pydantic_self__''" and only: "only_validation_errors m D"
    proof -
      have "validate_model m D = Inl ValidationError"
        using validate_model_only_validation [OF only fi] .
      then show ?thesis using m that(1) by (simp add: validate_data_def instantiate_def)
    qed
    then show "\<exists>m. create_model_from_schema S = Inr m \<and>
                 (\<not> has_key D ''__pydantic_self__'' \<and> only_validation_errors m D \<longrightarrow>
                    validate_data S D = Inl ValueError)"
      using m by blast
  qed
qed

theorem required_field_absent_fails_witness:
  "validate_field_definitions (field_defs user_schema) = Inr () \<and>
   distinct (map fst (field_defs user_schema)) \<and>
   list_all (\<lambda>(n, fd). \<not> reserved_name n) (field_defs user_schema) \<and>
   (''age'', [(''type'', PStr ''integer''), (''required'', PBool True)])
     \<in> set (field_defs user_schema) \<and>
   \<not> underscore_name ''age'' \<and>
   truthy (dict_get [(''type'', PStr ''integer''), (''required'', PBool True)] ''required''
            (PBool False)) \<and>
   map_of [(''type'', PStr ''integer''), (''required'', PBool True)] ''default'' = None \<and>
   map_of [(''name'', PStr ''Hong''), (''email'', PStr ''x@example.com'')] ''age'' = None \<and>
   buildable user_schema \<and>
   create_model_from_schema user_schema = Inr user_model \<and>
   \<not> has_key [(''name'', PStr ''Hong''), (''email'', PStr ''x@example.com'')]
       ''__pydantic_self__'' \<and>
   only_validation_errors user_model
     [(''name'', PStr ''Hong''), (''email'', PStr ''x@example.com'')] \<and>
   validate_data user_schema [(''name'', PStr ''Hong''), (''email'', PStr ''x@example.com'')] =
     Inl ValueError"
proof -
  let ?D = "[(''name'', PStr ''Hong''), (''email'', PStr ''x@example.com'')]"
  let ?fd = "[(''type'', PStr ''integer''), (''required'', PBool True)]"
  have decl: "(''age'', ?fd) \<in> set (field_defs user_schema)"
    by (simp add: user_schema_def)
  have kept: "\<not> underscore_name ''age''"
    by (simp add: underscore_name_def)
  have req: "truthy (dict_get ?fd ''required'' (PBool False))"
    by (simp add: dict_get_def)
  have nodefault: "map_of ?fd ''default'' = None"
    by simp
  have absent: "map_of ?D ''age'' = None"
    by simp
  have nokey: "\<not> has_key ?D ''__pydantic_self__''"
    by (simp add: has_key_def)
  have only: "only_validation_errors user_model ?D"
    by (simp add: only_validation_errors_def user_model_def field_value_def validate_field_def)
  have "validate_data user_schema ?D = Inl ValueError"
    using required_field_absent_fails
      [OF user_schema_valid user_schema_keys user_schema_plain decl kept req nodefault absent]
      user_schema_buildable user_schema_model nokey only
    by auto
  then show ?thesis
    using user_schema_valid user_schema_keys user_schema_plain decl kept req nodefault absent
      user_schema_buildable user_schema_model nokey only
    by blast
qed

text \<open>
  Claim C5 as stated fails.  A required field whose name starts with an underscore is
  no field of the model: the schema passes the validator, the field is required, has no
  default and is absent, and \<open>validate_data\<close> returns a document, the empty one.  And
  where a schema declares a field of type \<open>date\<close>, the model is not built: what is
  raised for the absent required field \<open>title\<close> is a \<open>RuntimeError\<close>, not a validation
  failure.
\<close>

theorem required_underscore_field_not_enforced:
  "validate_field_definitions (field_defs underscore_schema) = Inr () \<and>
   (''_id'', [(''type'', PStr ''string''), (''required'', PBool True)])
     \<in> set (field_defs underscore_schema) \<and>
   truthy (dict_get [(''type'', PStr ''string''), (''required'', PBool True)] ''required''
            (PBool False)) \<and>
   map_of [(''type'', PStr ''string''), (''required'', PBool True)] ''default'' = None \<and>
   map_of ([] :: doc) ''_id'' = None \<and>
   validate_data underscore_schema [] = Inr [] \<and>
   validate_field_definitions (field_defs event_schema) = Inr () \<and>
   validate_data event_schema [] = Inl RuntimeError"
  by (simp add: underscore_schema_def event_schema_def eval_defs)

section \<open>Validating a validated document again\<close>

text \<open>
  Claim C6, as the code has it.  If \<open>validate_data S D\<close> returns \<open>V\<close> and every default
  declared in \<open>S\<close> is itself returned unchanged by the validation of its field, then
  \<open>validate_data S V\<close> returns \<open>V\<close> again.
\<close>

theorem revalidation_idempotent:
  assumes ok: "validate_data S D = Inr V"
    and m: "create_model_from_schema S = Inr m"
    and dv: "defaults_validated m"
  shows "validate_data S V = Inr V"
proof -
  from ok m have run: "validate_model m D = Inr V"
    by (auto simp: validate_data_Inr)
  have nokey: "\<not> has_key V ''__pydantic_self__''"
    using m run by (rule validated_keys_plain)
  have dist: "distinct (map fst m)" using m by (rule model_distinct)
  have keys: "map fst V = map fst m" using run by (rule validate_model_keys)
  have "\<exists>w. map_of V n = Some w \<and> field_value fi (map_of V n) = Inr w"
    if mem: "(n, fi) \<in> set m" for n fi
  proof -
    obtain w where w: "field_value fi (map_of D n) = Inr w" "map_of V n = Some w"
      using validate_model_value [OF run dist mem] by blast
    have "case f_default fi of Ellipsis \<Rightarrow> True | Default d \<Rightarrow> validate_field fi d = Inr d"
      using dv mem by (fastforce simp: defaults_validated_def list_all_iff)
    then have "field_value fi (Some w) = Inr w"
      using field_value_refix [OF w(1)] by blast
    then show ?thesis using w(2) by simp
  qed
  then have "validate_model m V = Inr V"
    using validate_model_fixed [OF dist keys] by blast
  then show ?thesis using m nokey by (simp add: validate_data_def instantiate_def)
qed

theorem revalidation_idempotent_witness:
  "validate_data user_schema [(''name'', PStr ''Hong''), (''age'', PStr ''30'')] =
     Inr [(''name'', PStr ''Hong''), (''age'', PInt 30), (''email'', PNone)] \<and>
   create_model_from_schema user_schema = Inr user_model \<and>
   defaults_validated user_model \<and>
   validate_data user_schema [(''name'', PStr ''Hong''), (''age'', PInt 30), (''email'', PNone)] =
     Inr [(''name'', PStr ''Hong''), (''age'', PInt 30), (''email'', PNone)]"
proof -
  have ok: "validate_data user_schema [(''name'', PStr ''Hong''), (''age'', PStr ''30'')] =
     Inr [(''name'', PStr ''Hong''), (''age'', PInt 30), (''email'', PNone)]"
    by (simp add: user_schema_def eval_defs)
  have dv: "defaults_validated user_model"
    by (simp add: defaults_validated_def user_model_def validate_field_def allow_none_def)
  from revalidation_idempotent [OF ok user_schema_model dv] ok user_schema_model dv
  show ?thesis by blast
qed

text \<open>
  Claim C6 as stated fails: a default is copied into the output without being validated,
  so a default of the wrong type passes the first validation and fails the second.
\<close>

theorem revalidation_counterexample:
  "validate_data count_schema [] = Inr [(''count'', PStr ''many'')] \<and>
   validate_data count_schema [(''count'', PStr ''many'')] = Inl ValueError"
  by (simp add: count_schema_def eval_defs)

section \<open>Criteria that add no condition\<close>





section \<open>The disjunction of two criteria\<close>


section \<open>Soft deletion and restoration\<close>

















section \<open>The counts of a migration\<close>





section \<open>Creating a record for a schema that does not exist\<close>


end
